theory Spec2Isabelle
  imports Complex_Main "HOL-Library.Word" "HOL-Library.AList" "HOL-Library.Sublist"
    "HOL-Library.Multiset"
begin

unbundle bit_operations_syntax

section \<open>Python values\<close>

text \<open>
  A Python \<open>str\<close> is the list of its Unicode code points; \<open>bytes\<close> is a list of
  8-bit words. \<open>py_str\<close> writes an ASCII literal as a \<open>str\<close>, \<open>py_bytes\<close> as
  \<open>bytes\<close>. The exceptions the modelled code can raise are the values of \<open>error\<close>.
\<close>

type_synonym ustr = "nat list"
type_synonym bytes = "8 word list"

datatype error =
    ValueError | TypeError | AttributeError | KeyError | UnicodeEncodeError
  | UnicodeDecodeError | JSONDecodeError | RecursionError

definition py_str :: "string \<Rightarrow> ustr" where
  "py_str cs = map of_char cs"

definition py_bytes :: "string \<Rightarrow> bytes" where
  "py_bytes cs = map of_char cs"

section \<open>The WAF challenge solver (app.py, solve_acw_challenge)\<close>

subsection \<open>re.search(r"var arg1='([A-F0-9]+)'", html_content)\<close>

definition is_upper_hex :: "nat \<Rightarrow> bool" where
  "is_upper_hex c \<longleftrightarrow> (65 \<le> c \<and> c \<le> 70) \<or> (48 \<le> c \<and> c \<le> 57)"

definition arg1_open :: ustr where
  "arg1_open = py_str ''var arg1='' @ [39]"

text \<open>
  A match of the pattern at the very start of \<open>t\<close>, giving group 1. The class
  \<open>[A-F0-9]+\<close> is greedy and the next pattern character, the quote, is not in the
  class, so the only run of the class that can be followed by the quote is the longest.
\<close>

definition match_arg1 :: "ustr \<Rightarrow> ustr option" where
  "match_arg1 t =
     (if take (length arg1_open) t = arg1_open then
        (let hex = takeWhile is_upper_hex (drop (length arg1_open) t);
             rest = dropWhile is_upper_hex (drop (length arg1_open) t)
         in if hex \<noteq> [] \<and> take 1 rest = [39] then Some hex else None)
      else None)"

text \<open>\<open>re.search\<close> tries each start position from the left and keeps the first match.\<close>

fun re_search_arg1 :: "ustr \<Rightarrow> ustr option" where
  "re_search_arg1 [] = None"
| "re_search_arg1 (c # cs) =
     (case match_arg1 (c # cs) of Some hex \<Rightarrow> Some hex | None \<Rightarrow> re_search_arg1 cs)"

subsection \<open>base64.b64decode(mask_b64).decode()\<close>

definition b64_value :: "nat \<Rightarrow> nat option" where
  "b64_value c =
     (if 65 \<le> c \<and> c \<le> 90 then Some (c - 65)
      else if 97 \<le> c \<and> c \<le> 122 then Some (c - 71)
      else if 48 \<le> c \<and> c \<le> 57 then Some (c + 4)
      else if c = 43 then Some 62
      else if c = 47 then Some 63
      else None)"

text \<open>
  Four sextets give three bytes; a last group of three sextets gives two bytes and one of
  two sextets gives one byte (the groups that end in the padding \<open>=\<close>).
\<close>

fun b64_bytes :: "nat list \<Rightarrow> nat list" where
  "b64_bytes (a # b # c # d # rest) =
     (a * 4 + b div 16) # ((b mod 16) * 16 + c div 4) # ((c mod 4) * 64 + d) # b64_bytes rest"
| "b64_bytes [a, b, c] = [a * 4 + b div 16, (b mod 16) * 16 + c div 4]"
| "b64_bytes [a, b] = [a * 4 + b div 16]"
| "b64_bytes _ = []"

definition b64decode :: "ustr \<Rightarrow> nat list" where
  "b64decode s = b64_bytes (List.map_filter b64_value s)"

definition mask_b64 :: ustr where
  "mask_b64 = py_str ''MzAwMDE3NjAwMDg1NjAwNjA2MTUwMTUzMzAwMzY5MDAyNzgwMDM3NQ==''"

text \<open>
  Every decoded byte of this constant is ASCII (lemma \<open>mask_text_value\<close> below), so
  \<open>.decode()\<close> maps each byte to the code point of the same number.
\<close>

definition mask_text :: ustr where
  "mask_text = b64decode mask_b64"

subsection \<open>The permutation and the XOR loop\<close>

definition posList :: "nat list" where
  "posList = [0xf,0x23,0x1d,0x18,0x21,0x10,0x1,0x26,0xa,0x9,0x13,0x1f,0x28,0x1b,0x16,0x17,
              0x19,0xd,0x6,0xb,0x27,0x12,0x14,0x8,0xe,0x15,0x20,0x1a,0x2,0x1e,0x7,0x4,0x11,
              0x5,0x3,0x1c,0x22,0x25,0xc,0x24]"

text \<open>
  The inner loop \<open>for j in range(len(posList))\<close> for one \<open>i\<close>, then the outer loop
  \<open>for i in range(len(arg1))\<close> from \<open>[''] * len(posList)\<close>, then the join.
\<close>

definition place :: "ustr \<Rightarrow> nat \<Rightarrow> ustr list \<Rightarrow> ustr list" where
  "place arg1 i outPutList =
     fold (\<lambda>j out. if posList ! j = i + 1 then out[j := [arg1 ! i]] else out)
       [0..<length posList] outPutList"

definition arg2_of :: "ustr \<Rightarrow> ustr" where
  "arg2_of arg1 =
     concat (fold (place arg1) [0..<length arg1] (replicate (length posList) []))"

text \<open>
  \<open>int(s, 16)\<close> on a string of hexadecimal digits; the empty string and any other
  character raise ValueError. (Python also accepts a sign, blanks, underscores and a
  \<open>0x\<close> prefix; the solver only passes one or two characters of \<open>[A-F0-9]\<close>.)
\<close>

definition hex_value :: "nat \<Rightarrow> nat option" where
  "hex_value c =
     (if 48 \<le> c \<and> c \<le> 57 then Some (c - 48)
      else if 65 \<le> c \<and> c \<le> 70 then Some (c - 55)
      else if 97 \<le> c \<and> c \<le> 102 then Some (c - 87)
      else None)"

fun int16_acc :: "nat \<Rightarrow> ustr \<Rightarrow> error + nat" where
  "int16_acc acc [] = Inr acc"
| "int16_acc acc (c # cs) =
     (case hex_value c of None \<Rightarrow> Inl ValueError | Some d \<Rightarrow> int16_acc (acc * 16 + d) cs)"

definition int16 :: "ustr \<Rightarrow> error + nat" where
  "int16 s = (if s = [] then Inl ValueError else int16_acc 0 s)"

text \<open>\<open>hex(n)[2:]\<close>: the lowercase hexadecimal digits of \<open>n\<close>, without padding.\<close>

definition hex_digit :: "nat \<Rightarrow> nat" where
  "hex_digit d = (if d < 10 then 48 + d else 87 + d)"

fun hex_digits :: "nat \<Rightarrow> ustr" where
  "hex_digits n = (if n < 16 then [hex_digit n] else hex_digits (n div 16) @ [hex_digit (n mod 16)])"

declare hex_digits.simps [simp del]

text \<open>One round of the loop \<open>for i in range(0, min(len(arg2), len(mask)), 2)\<close>.\<close>

definition xor_round :: "ustr \<Rightarrow> ustr \<Rightarrow> nat \<Rightarrow> error + ustr" where
  "xor_round arg2 msk i =
     (case int16 (take 2 (drop i arg2)) of
        Inl e \<Rightarrow> Inl e
      | Inr strChar \<Rightarrow>
          (case int16 (take 2 (drop i msk)) of
             Inl e \<Rightarrow> Inl e
           | Inr maskChar \<Rightarrow>
               (let xorChar = hex_digits (strChar XOR maskChar)
                in Inr (if length xorChar = 1 then 48 # xorChar else xorChar))))"

fun xor_loop :: "ustr \<Rightarrow> ustr \<Rightarrow> nat list \<Rightarrow> ustr \<Rightarrow> error + ustr" where
  "xor_loop arg2 msk [] arg3 = Inr arg3"
| "xor_loop arg2 msk (i # rest) arg3 =
     (case xor_round arg2 msk i of
        Inl e \<Rightarrow> Inl e
      | Inr xorChar \<Rightarrow> xor_loop arg2 msk rest (arg3 @ xorChar))"

definition range2 :: "nat \<Rightarrow> nat list" where
  "range2 n = map (\<lambda>k. 2 * k) [0..<(n + 1) div 2]"

definition solve_acw_challenge :: "ustr \<Rightarrow> error + ustr option" where
  "solve_acw_challenge html_content =
     (case re_search_arg1 html_content of
        None \<Rightarrow> Inr None
      | Some arg1 \<Rightarrow>
          (let arg2 = arg2_of arg1
           in (case xor_loop arg2 mask_text (range2 (min (length arg2) (length mask_text))) [] of
                 Inl e \<Rightarrow> Inl e
               | Inr arg3 \<Rightarrow> Inr (Some arg3))))"

subsection \<open>What the claim says of the solver\<close>

text \<open>
  The pattern matches at the start of \<open>t\<close> with group \<open>hex\<close>; the text has a match;
  \<open>hex\<close> is the group of its leftmost match. The token is written as the claim has it:
  character \<open>i\<close> of \<open>arg1\<close> goes to the position \<open>j\<close> with \<open>posList[j] = i + 1\<close>,
  and each pair of hexadecimal digits is XORed with the pair of the mask and written as two
  lowercase digits.
\<close>

definition arg1_at :: "ustr \<Rightarrow> ustr \<Rightarrow> bool" where
  "arg1_at t hex \<longleftrightarrow>
     hex \<noteq> [] \<and> list_all is_upper_hex hex \<and> (\<exists>post. t = arg1_open @ hex @ [39] @ post)"

definition has_arg1 :: "ustr \<Rightarrow> bool" where
  "has_arg1 html \<longleftrightarrow> (\<exists>k hex. arg1_at (drop k html) hex)"

definition first_arg1 :: "ustr \<Rightarrow> ustr \<Rightarrow> bool" where
  "first_arg1 html hex \<longleftrightarrow>
     (\<exists>k. arg1_at (drop k html) hex \<and> (\<forall>k' hex'. arg1_at (drop k' html) hex' \<longrightarrow> k \<le> k'))"

definition spec_arg2 :: "ustr \<Rightarrow> ustr" where
  "spec_arg2 arg1 =
     concat (map (\<lambda>j. if posList ! j \<le> length arg1 then [arg1 ! (posList ! j - 1)] else [])
       [0..<length posList])"

definition hex_number :: "ustr \<Rightarrow> nat" where
  "hex_number s = foldl (\<lambda>a c. 16 * a + (case hex_value c of Some d \<Rightarrow> d | None \<Rightarrow> 0)) 0 s"

definition two_hex :: "nat \<Rightarrow> ustr" where
  "two_hex n = [hex_digit (n div 16), hex_digit (n mod 16)]"

definition is_lower_hex :: "nat \<Rightarrow> bool" where
  "is_lower_hex c \<longleftrightarrow> (48 \<le> c \<and> c \<le> 57) \<or> (97 \<le> c \<and> c \<le> 102)"

definition spec_token :: "ustr \<Rightarrow> ustr" where
  "spec_token arg1 =
     (let arg2 = spec_arg2 arg1
      in concat (map (\<lambda>k. two_hex (hex_number (take 2 (drop (2 * k) arg2)) XOR
                                    hex_number (take 2 (drop (2 * k) mask_text))))
           [0..<(min (length arg2) (length mask_text) + 1) div 2]))"

definition is_hex :: "nat \<Rightarrow> bool" where
  "is_hex c \<longleftrightarrow> hex_value c \<noteq> None"

section \<open>JSON values, json.dumps and UTF-8\<close>

text \<open>
  A value as \<open>json.loads\<close> returns it: \<open>None\<close>, a \<open>bool\<close>, an \<open>int\<close>, a \<open>float\<close>,
  a \<open>str\<close>, a \<open>list\<close> or a \<open>dict\<close> with \<open>str\<close> keys. A dict keeps the order in which
  its keys were inserted, so it is an association list (with distinct keys): a lookup is
  \<open>map_of\<close>, an assignment \<open>d[k] = v\<close> is \<open>AList.update\<close>, which keeps the place of a key
  that is present and appends a new one. The type parameter is what a float carries: the
  text \<open>json.dumps\<close> writes for it in a request body, the real number it denotes in the
  cooldown file.
\<close>

datatype 'f json =
    JNull
  | JBool bool
  | JInt int
  | JFloat 'f
  | JStr ustr
  | JList "'f json list"
  | JDict "(ustr \<times> 'f json) list"

subsection \<open>json.dumps(data, ensure_ascii=..., separators=(',', ':'))\<close>

text \<open>Four lowercase hexadecimal digits: \<open>'{0:04x}'.format(n)\<close> for \<open>n < 0x10000\<close>.\<close>

definition hex4 :: "nat \<Rightarrow> ustr" where
  "hex4 n = [hex_digit (n div 4096 mod 16), hex_digit (n div 256 mod 16),
             hex_digit (n div 16 mod 16), hex_digit (n mod 16)]"

definition u_escape :: "nat \<Rightarrow> ustr" where
  "u_escape n = [92, 117] @ hex4 n"

text \<open>
  The escape of one character of a string (json.encoder): the quote (34), the backslash
  (92) and the control characters always, the backslash followed by the quote, a
  backslash, \<open>n\<close>, \<open>r\<close>, \<open>t\<close>, \<open>b\<close>, \<open>f\<close> or \<open>u\<close> and four digits; with
  \<open>ensure_ascii\<close> also every character outside \<open>' '..'~'\<close>, one above \<open>0xFFFF\<close>
  as a surrogate pair.
\<close>

definition escape_char :: "bool \<Rightarrow> nat \<Rightarrow> ustr" where
  "escape_char ensure_ascii c =
     (if c = 34 then [92, 34]
      else if c = 92 then [92, 92]
      else if c = 10 then [92, 110]
      else if c = 13 then [92, 114]
      else if c = 9 then [92, 116]
      else if c = 8 then [92, 98]
      else if c = 12 then [92, 102]
      else if c < 32 then u_escape c
      else if ensure_ascii \<and> 126 < c then
        (if c < 65536 then u_escape c
         else u_escape (55296 + (c - 65536) div 1024 mod 1024) @
              u_escape (56320 + (c - 65536) mod 1024))
      else [c])"

definition dumps_str :: "bool \<Rightarrow> ustr \<Rightarrow> ustr" where
  "dumps_str ensure_ascii s = [34] @ concat (map (escape_char ensure_ascii) s) @ [34]"

text \<open>\<open>int.__repr__\<close>: decimal digits, with a minus sign for a negative number.\<close>

fun dec_digits :: "nat \<Rightarrow> ustr" where
  "dec_digits n = (if n < 10 then [48 + n] else dec_digits (n div 10) @ [48 + n mod 10])"

declare dec_digits.simps [simp del]

definition dumps_int :: "int \<Rightarrow> ustr" where
  "dumps_int i = (if i < 0 then 45 # dec_digits (nat (- i)) else dec_digits (nat i))"

fun join_comma :: "ustr list \<Rightarrow> ustr" where
  "join_comma [] = []"
| "join_comma [x] = x"
| "join_comma (x # y # zs) = x @ [44] @ join_comma (y # zs)"

primrec dumps :: "bool \<Rightarrow> ustr json \<Rightarrow> ustr" where
  "dumps ensure_ascii JNull = py_str ''null''"
| "dumps ensure_ascii (JBool b) = (if b then py_str ''true'' else py_str ''false'')"
| "dumps ensure_ascii (JInt i) = dumps_int i"
| "dumps ensure_ascii (JFloat text) = text"
| "dumps ensure_ascii (JStr s) = dumps_str ensure_ascii s"
| "dumps ensure_ascii (JList xs) = [91] @ join_comma (map (dumps ensure_ascii) xs) @ [93]"
| "dumps ensure_ascii (JDict kvs) =
     [123] @ join_comma (map (\<lambda>(k, text). dumps_str ensure_ascii k @ [58] @ text)
                          (map (map_prod id (dumps ensure_ascii)) kvs)) @ [125]"

subsection \<open>str.encode('utf-8')\<close>

text \<open>
  The UTF-8 bytes of one code point; a surrogate (\<open>U+D800\<close> to \<open>U+DFFF\<close>) cannot be
  encoded and raises UnicodeEncodeError (\<open>None\<close> here). A \<open>str\<close> holds no number from
  \<open>0x110000\<close> on.
\<close>

definition utf8_char :: "nat \<Rightarrow> bytes option" where
  "utf8_char c =
     (if c < 128 then Some [of_nat c]
      else if c < 2048 then Some [of_nat (192 + c div 64), of_nat (128 + c mod 64)]
      else if 55296 \<le> c \<and> c \<le> 57343 then None
      else if c < 65536 then
        Some [of_nat (224 + c div 4096), of_nat (128 + c div 64 mod 64), of_nat (128 + c mod 64)]
      else if c < 1114112 then
        Some [of_nat (240 + c div 262144), of_nat (128 + c div 4096 mod 64),
              of_nat (128 + c div 64 mod 64), of_nat (128 + c mod 64)]
      else None)"

fun utf8_encode :: "ustr \<Rightarrow> bytes option" where
  "utf8_encode [] = Some []"
| "utf8_encode (c # cs) =
     (case utf8_char c of
        None \<Rightarrow> None
      | Some b \<Rightarrow> (case utf8_encode cs of None \<Rightarrow> None | Some bs \<Rightarrow> Some (b @ bs)))"

section \<open>The request body rewriter (app.py, process_request_body)\<close>

text \<open>
  The library and the standard output are parameters of the model. \<open>lib_loads\<close> stands
  for \<open>json.loads(body.decode('utf-8'))\<close>: the value, or the exception raised, which is
  a UnicodeDecodeError, a JSONDecodeError, or one that line 581 does not catch (a
  ValueError for an integer of too many digits, a RecursionError). \<open>lib_lower\<close> stands
  for \<open>str.lower\<close>. \<open>lib_print\<close> says of a string whether \<open>print\<close> writes a log line
  with that string in it (\<open>False\<close>: it raises UnicodeEncodeError, as it does on a UTF-8
  stream for a lone surrogate), and \<open>lib_print_repr\<close> says the same of a list or a dict,
  which the line shows as \<open>str\<close> writes it. The fixed parts of the log lines of the
  rewriter are ASCII and are taken to print, like the numbers, the booleans, the types and
  the exception messages shown. The configuration is \<open>SYSTEM_PROMPT_REPLACEMENT\<close>
  (\<open>None\<close> when the variable is unset) and \<open>SYSTEM_PROMPT_BLOCK_INSERT_IF_NOT_EXIST\<close>.
\<close>

record library =
  lib_loads :: "bytes \<Rightarrow> error + ustr json"
  lib_lower :: "ustr \<Rightarrow> ustr"
  lib_print :: "ustr \<Rightarrow> bool"
  lib_print_repr :: "ustr json \<Rightarrow> bool"

definition CLAUDE_CODE_KEYWORD :: ustr where
  "CLAUDE_CODE_KEYWORD = py_str ''Claude Code''"

definition SYSTEM :: ustr where
  "SYSTEM = py_str ''system''"

definition TEXT :: ustr where
  "TEXT = py_str ''text''"

text \<open>\<open>sub in s\<close> for two strings.\<close>

fun str_contains :: "ustr \<Rightarrow> ustr \<Rightarrow> bool" where
  "str_contains sub [] = (sub = [])"
| "str_contains sub (c # cs) = (take (length sub) (c # cs) = sub \<or> str_contains sub cs)"

text \<open>\<open>s[:100]\<close> if \<open>len(s) > 100\<close>, else \<open>s\<close>: what the log lines show of a text.\<close>

definition preview :: "'a list \<Rightarrow> 'a list" where
  "preview s = (if length s > 100 then take 100 s else s)"

text \<open>A \<open>print\<close> of a line with the string \<open>s\<close> in it; no \<open>try\<close> is around these.\<close>

definition log_line :: "library \<Rightarrow> ustr \<Rightarrow> error + unit" where
  "log_line lib s = (if lib_print lib s then Inr () else Inl UnicodeEncodeError)"

text \<open>
  Line 608 evaluates \<open>len(original_text) > 100\<close> and, when it holds,
  \<open>original_text[:100]\<close>, and prints: \<open>len\<close> raises TypeError for \<open>None\<close>, a bool and
  a number, and a dict cannot be sliced (TypeError; KeyError from Python 3.12 on).
\<close>

definition log_preview :: "library \<Rightarrow> ustr json \<Rightarrow> error + unit" where
  "log_preview lib original_text =
     (case original_text of
        JStr s \<Rightarrow> log_line lib (preview s)
      | JList xs \<Rightarrow>
          (if lib_print_repr lib (JList (preview xs)) then Inr () else Inl UnicodeEncodeError)
      | JDict kvs \<Rightarrow>
          (if length kvs > 100 then Inl TypeError
           else if lib_print_repr lib (JDict kvs) then Inr ()
           else Inl UnicodeEncodeError)
      | _ \<Rightarrow> Inl TypeError)"

definition new_element :: "ustr \<Rightarrow> ustr json" where
  "new_element replacement =
     JDict [(py_str ''type'', JStr (py_str ''text'')),
            (py_str ''text'', JStr replacement),
            (py_str ''cache_control'', JDict [(py_str ''type'', JStr (py_str ''ephemeral''))])]"

text \<open>
  Lines 637 to 644: \<open>json.dumps(data, ensure_ascii=False, separators=(',', ':'))\<close>, then
  \<open>.encode('utf-8')\<close>; any exception gives the original body back. (\<open>json.dumps\<close> is
  taken to return for a document that \<open>json.loads\<close> returned.)
\<close>

definition dump_body :: "bytes \<Rightarrow> ustr json \<Rightarrow> bytes" where
  "dump_body body data =
     (case utf8_encode (dumps False data) of Some modified_body \<Rightarrow> modified_body | None \<Rightarrow> body)"

text \<open>\<open>first_element["text"] = SYSTEM_PROMPT_REPLACEMENT\<close>, seen from \<open>data\<close>.\<close>

definition replace_text ::
  "ustr \<Rightarrow> (ustr \<times> ustr json) list \<Rightarrow> (ustr \<times> ustr json) list \<Rightarrow> ustr json list \<Rightarrow> ustr json" where
  "replace_text replacement d first_element rest =
     JDict (AList.update SYSTEM
       (JList (JDict (AList.update TEXT (JStr replacement) first_element) # rest)) d)"

text \<open>\<open>data["system"].insert(0, new_element)\<close>, seen from \<open>data\<close>.\<close>

definition insert_element ::
  "ustr \<Rightarrow> (ustr \<times> ustr json) list \<Rightarrow> ustr json list \<Rightarrow> ustr json" where
  "insert_element replacement d system =
     JDict (AList.update SYSTEM (JList (new_element replacement # system)) d)"

text \<open>
  Lines 606 to 644, once \<open>system[0]\<close> is a dict with a \<open>text\<close> key: the log line of
  the text; the replacement or the insertion, \<open>original_text.lower()\<close> being an
  AttributeError for a text that is not a string; the log line of the replacement (lines
  616, 628 and 633); and the serialization.
\<close>

definition rewrite_system ::
  "library \<Rightarrow> ustr \<Rightarrow> bool \<Rightarrow> bytes \<Rightarrow> (ustr \<times> ustr json) list \<Rightarrow>
   (ustr \<times> ustr json) list \<Rightarrow> ustr json list \<Rightarrow> ustr json \<Rightarrow> error + bytes" where
  "rewrite_system lib replacement insert_mode body d first_element rest original_text =
     (case log_preview lib original_text of
        Inl e \<Rightarrow> Inl e
      | Inr _ \<Rightarrow>
          (case (if insert_mode then
                   (case original_text of
                      JStr t \<Rightarrow>
                        (if str_contains (lib_lower lib CLAUDE_CODE_KEYWORD) (lib_lower lib t)
                         then Inr (replace_text replacement d first_element rest)
                         else Inr (insert_element replacement d (JDict first_element # rest)))
                    | _ \<Rightarrow> Inl AttributeError)
                 else Inr (replace_text replacement d first_element rest)) of
             Inl e \<Rightarrow> Inl e
           | Inr data \<Rightarrow>
               (case log_line lib (preview replacement) of
                  Inl e \<Rightarrow> Inl e
                | Inr _ \<Rightarrow> Inr (dump_body body data))))"

text \<open>
  Lines 586 to 604 on a dict. On another value \<open>"system" not in data\<close> is a membership
  test of a list, a substring test of a string and a TypeError otherwise, and
  \<open>data["system"]\<close> then raises TypeError.
\<close>

definition process_data ::
  "library \<Rightarrow> ustr \<Rightarrow> bool \<Rightarrow> bytes \<Rightarrow> ustr json \<Rightarrow> error + bytes" where
  "process_data lib replacement insert_mode body data =
     (case data of
        JDict d \<Rightarrow>
          (case map_of d SYSTEM of
             None \<Rightarrow> Inr body
           | Some (JList system) \<Rightarrow>
               (case system of
                  [] \<Rightarrow> Inr body
                | JDict first_element # rest \<Rightarrow>
                    (case map_of first_element TEXT of
                       None \<Rightarrow> Inr body
                     | Some original_text \<Rightarrow>
                         rewrite_system lib replacement insert_mode body d
                           first_element rest original_text)
                | _ # rest \<Rightarrow> Inr body)
           | Some _ \<Rightarrow> Inr body)
      | JList xs \<Rightarrow> (if JStr SYSTEM \<in> set xs then Inl TypeError else Inr body)
      | JStr s \<Rightarrow> (if str_contains SYSTEM s then Inl TypeError else Inr body)
      | _ \<Rightarrow> Inl TypeError)"

text \<open>
  Lines 569 to 584: the \<open>except\<close> of line 581 names JSONDecodeError and
  UnicodeDecodeError; another exception of \<open>json.loads\<close> leaves the function.
\<close>

definition process_request_body ::
  "library \<Rightarrow> ustr option \<Rightarrow> bool \<Rightarrow> bytes \<Rightarrow> error + bytes" where
  "process_request_body lib SYSTEM_PROMPT_REPLACEMENT insert_mode body =
     (case SYSTEM_PROMPT_REPLACEMENT of
        None \<Rightarrow> Inr body
      | Some replacement \<Rightarrow>
          (case lib_loads lib body of
             Inl e \<Rightarrow> (if e = JSONDecodeError \<or> e = UnicodeDecodeError then Inr body else Inl e)
           | Inr data \<Rightarrow> process_data lib replacement insert_mode body data))"

text \<open>
  \<open>str.lower\<close> on a string of ASCII characters, for the concrete inputs below (on other
  characters the Unicode tables decide, which are not part of the sources); and a
  standard output that is a UTF-8 stream: a string is written unless it has a surrogate,
  and a list or a dict always, since \<open>str\<close> writes the surrogates in it as escapes.
\<close>

definition ascii_lower :: "ustr \<Rightarrow> ustr" where
  "ascii_lower s = map (\<lambda>c. if 65 \<le> c \<and> c \<le> 90 then c + 32 else c) s"

definition utf8_print :: "ustr \<Rightarrow> bool" where
  "utf8_print s \<longleftrightarrow> utf8_encode s \<noteq> None"

definition utf8_print_repr :: "ustr json \<Rightarrow> bool" where
  "utf8_print_repr v \<longleftrightarrow> True"

subsection \<open>What the claims say of the rewriter\<close>

text \<open>
  The precondition of the replacement: \<open>system\<close> is a non-empty list whose first element is
  a dict with a \<open>text\<close> key.
\<close>

definition has_system_text :: "(ustr \<times> 'f json) list \<Rightarrow> bool" where
  "has_system_text d \<longleftrightarrow>
     (\<exists>first_element rest original_text.
        map_of d SYSTEM = Some (JList (JDict first_element # rest)) \<and>
        map_of first_element TEXT = Some original_text)"

text \<open>
  \<open>d'\<close> is \<open>d\<close> with \<open>system[0].text\<close> set to the replacement and nothing else changed:
  the same keys in the same order with the same values, but for \<open>system\<close>, whose list has
  the same tail and a first element with the same keys in the same order and the same
  values, but for \<open>text\<close>.
\<close>

definition only_text_replaced ::
  "ustr \<Rightarrow> (ustr \<times> ustr json) list \<Rightarrow> (ustr \<times> ustr json) list \<Rightarrow> bool" where
  "only_text_replaced replacement d d' \<longleftrightarrow>
     map fst d' = map fst d \<and>
     (\<forall>k. k \<noteq> SYSTEM \<longrightarrow> map_of d' k = map_of d k) \<and>
     (\<exists>first_element first_element' rest.
        map_of d SYSTEM = Some (JList (JDict first_element # rest)) \<and>
        map_of d' SYSTEM = Some (JList (JDict first_element' # rest)) \<and>
        map fst first_element' = map fst first_element \<and>
        map_of first_element' TEXT = Some (JStr replacement) \<and>
        (\<forall>k. k \<noteq> TEXT \<longrightarrow> map_of first_element' k = map_of first_element k))"

text \<open>
  \<open>d'\<close> is \<open>d\<close> with the new element in front of the \<open>system\<close> list and nothing
  else changed.
\<close>

definition element_inserted ::
  "ustr \<Rightarrow> (ustr \<times> ustr json) list \<Rightarrow> (ustr \<times> ustr json) list \<Rightarrow> bool" where
  "element_inserted replacement d d' \<longleftrightarrow>
     map fst d' = map fst d \<and>
     (\<forall>k. k \<noteq> SYSTEM \<longrightarrow> map_of d' k = map_of d k) \<and>
     (\<exists>system. map_of d SYSTEM = Some (JList system) \<and>
        map_of d' SYSTEM = Some (JList (new_element replacement # system)))"

subsection \<open>Request bodies of the scenarios\<close>

text \<open>
  The body of scenario S2 and three more, each with the value \<open>json.loads\<close> returns for
  it: a body whose first system text is already \<open>X\<close>, one with a lone surrogate written
  as the escape \<open>\ud800\<close> (which \<open>json.loads\<close> decodes to the code point
  \<open>U+D800\<close>), one whose \<open>text\<close> is a number, and one whose \<open>text\<close> is \<open>X\<close> and
  which has a lone surrogate in another field. \<open>example_loads\<close> is \<open>lib_loads\<close> on these
  bodies, and \<open>example_lib\<close> the library with it.
\<close>

definition body_S2 :: bytes where
  \<open>body_S2 = py_bytes ''{"system":[{"type":"text","text":"You are Claude Code."}],"model":"m"}''\<close>

definition data_S2 :: "ustr json" where
  "data_S2 =
     JDict [(py_str ''system'',
               JList [JDict [(py_str ''type'', JStr (py_str ''text'')),
                             (py_str ''text'', JStr (py_str ''You are Claude Code.''))]]),
            (py_str ''model'', JStr (py_str ''m''))]"

definition body_X :: bytes where
  \<open>body_X = py_bytes ''{"system":[{"type":"text","text":"X"}]}''\<close>

definition data_X :: "ustr json" where
  "data_X =
     JDict [(py_str ''system'',
               JList [JDict [(py_str ''type'', JStr (py_str ''text'')),
                             (py_str ''text'', JStr (py_str ''X''))]])]"

definition body_surrogate :: bytes where
  \<open>body_surrogate =
     py_bytes ''{"system":[{"text":"a"}],"x":"'' @ [92] @ py_bytes ''ud800"}''\<close>

definition data_surrogate :: "ustr json" where
  "data_surrogate =
     JDict [(py_str ''system'', JList [JDict [(py_str ''text'', JStr (py_str ''a''))]]),
            (py_str ''x'', JStr [55296])]"

definition body_number :: bytes where
  \<open>body_number = py_bytes ''{"system":[{"text":5}]}''\<close>

definition data_number :: "ustr json" where
  "data_number = JDict [(py_str ''system'', JList [JDict [(py_str ''text'', JInt 5)]])]"

definition body_X_surrogate :: bytes where
  \<open>body_X_surrogate =
     py_bytes ''{"system":[{"text":"X"}],"x":"'' @ [92] @ py_bytes ''ud800"}''\<close>

definition data_X_surrogate :: "ustr json" where
  "data_X_surrogate =
     JDict [(py_str ''system'', JList [JDict [(py_str ''text'', JStr (py_str ''X''))]]),
            (py_str ''x'', JStr [55296])]"

definition example_loads :: "bytes \<Rightarrow> error + ustr json" where
  "example_loads body =
     (if body = body_S2 then Inr data_S2
      else if body = body_X then Inr data_X
      else if body = body_surrogate then Inr data_surrogate
      else if body = body_number then Inr data_number
      else if body = body_X_surrogate then Inr data_X_surrogate
      else Inl JSONDecodeError)"

definition example_lib :: library where
  "example_lib =
     \<lparr>lib_loads = example_loads, lib_lower = ascii_lower, lib_print = utf8_print,
      lib_print_repr = utf8_print_repr\<rparr>"

section \<open>Key identifiers (app.py, _key_id)\<close>

subsection \<open>hashlib.sha256\<close>

text \<open>
  SHA-256 as FIPS 180-4 defines it, on a list of bytes: padding to a multiple of 64 bytes,
  sixteen big-endian words per block extended to sixty-four, sixty-four rounds per block
  on eight 32-bit working variables.
\<close>

type_synonym w32 = "32 word"
type_synonym sha_state = "w32 \<times> w32 \<times> w32 \<times> w32 \<times> w32 \<times> w32 \<times> w32 \<times> w32"

text \<open>
  The round constants (the first 32 bits of the fractional parts of the cube roots of the
  first 64 primes) and the initial hash value (of the square roots of the first 8), in
  decimal.
\<close>

definition sha_K :: "w32 list" where
  "sha_K =
    [1116352408, 1899447441, 3049323471, 3921009573, 961987163, 1508970993, 2453635748, 2870763221,
     3624381080, 310598401, 607225278, 1426881987, 1925078388, 2162078206, 2614888103, 3248222580,
     3835390401, 4022224774, 264347078, 604807628, 770255983, 1249150122, 1555081692, 1996064986,
     2554220882, 2821834349, 2952996808, 3210313671, 3336571891, 3584528711, 113926993, 338241895,
     666307205, 773529912, 1294757372, 1396182291, 1695183700, 1986661051, 2177026350, 2456956037,
     2730485921, 2820302411, 3259730800, 3345764771, 3516065817, 3600352804, 4094571909, 275423344,
     430227734, 506948616, 659060556, 883997877, 958139571, 1322822218, 1537002063, 1747873779,
     1955562222, 2024104815, 2227730452, 2361852424, 2428436474, 2756734187, 3204031479, 3329325298]"

definition sha_H0 :: sha_state where
  "sha_H0 = (1779033703, 3144134277, 1013904242, 2773480762,
             1359893119, 2600822924, 528734635, 1541459225)"

definition sha_Ch :: "w32 \<Rightarrow> w32 \<Rightarrow> w32 \<Rightarrow> w32" where
  "sha_Ch x y z = (x AND y) XOR (NOT x AND z)"

definition sha_Maj :: "w32 \<Rightarrow> w32 \<Rightarrow> w32 \<Rightarrow> w32" where
  "sha_Maj x y z = (x AND y) XOR (x AND z) XOR (y AND z)"

definition sha_bsig0 :: "w32 \<Rightarrow> w32" where
  "sha_bsig0 x = word_rotr 2 x XOR word_rotr 13 x XOR word_rotr 22 x"

definition sha_bsig1 :: "w32 \<Rightarrow> w32" where
  "sha_bsig1 x = word_rotr 6 x XOR word_rotr 11 x XOR word_rotr 25 x"

definition sha_ssig0 :: "w32 \<Rightarrow> w32" where
  "sha_ssig0 x = word_rotr 7 x XOR word_rotr 18 x XOR drop_bit 3 x"

definition sha_ssig1 :: "w32 \<Rightarrow> w32" where
  "sha_ssig1 x = word_rotr 17 x XOR word_rotr 19 x XOR drop_bit 10 x"

definition sha_pad :: "bytes \<Rightarrow> bytes" where
  "sha_pad msg =
     msg @ [128] @ replicate ((119 - length msg mod 64) mod 64) 0 @
     map (\<lambda>i. of_nat ((8 * length msg) div 256 ^ (7 - i) mod 256)) [0..<8]"

fun sha_words :: "bytes \<Rightarrow> w32 list" where
  "sha_words (b0 # b1 # b2 # b3 # rest) =
     of_nat (((unat b0 * 256 + unat b1) * 256 + unat b2) * 256 + unat b3) # sha_words rest"
| "sha_words _ = []"

fun sha_schedule :: "nat \<Rightarrow> w32 list \<Rightarrow> w32 list" where
  "sha_schedule 0 W = W"
| "sha_schedule (Suc n) W =
     (let t = length W
      in sha_schedule n
           (W @ [sha_ssig1 (W ! (t - 2)) + W ! (t - 7) + sha_ssig0 (W ! (t - 15)) + W ! (t - 16)]))"

definition sha_round :: "w32 \<times> w32 \<Rightarrow> sha_state \<Rightarrow> sha_state" where
  "sha_round kw st =
     (case st of (a, b, c, d, e, f, g, h) \<Rightarrow>
        (let T1 = h + sha_bsig1 e + sha_Ch e f g + fst kw + snd kw;
             T2 = sha_bsig0 a + sha_Maj a b c
         in (T1 + T2, a, b, c, d + T1, e, f, g)))"

definition sha_add :: "sha_state \<Rightarrow> sha_state \<Rightarrow> sha_state" where
  "sha_add s t =
     (case s of (a, b, c, d, e, f, g, h) \<Rightarrow>
      case t of (a', b', c', d', e', f', g', h') \<Rightarrow>
        (a + a', b + b', c + c', d + d', e + e', f + f', g + g', h + h'))"

definition sha_compress :: "bytes \<Rightarrow> sha_state \<Rightarrow> sha_state" where
  "sha_compress block H =
     sha_add H (fold sha_round (zip sha_K (sha_schedule 48 (sha_words block))) H)"

fun sha_blocks :: "nat \<Rightarrow> bytes \<Rightarrow> bytes list" where
  "sha_blocks 0 bs = []"
| "sha_blocks (Suc n) bs = take 64 bs # sha_blocks n (drop 64 bs)"

definition sha256 :: "bytes \<Rightarrow> sha_state" where
  "sha256 msg =
     (let p = sha_pad msg in fold sha_compress (sha_blocks (length p div 64) p) sha_H0)"

text \<open>\<open>.hexdigest()\<close>: the eight words, eight lowercase hexadecimal digits each.\<close>

definition hex8 :: "w32 \<Rightarrow> ustr" where
  "hex8 w = map (\<lambda>i. hex_digit (unat (drop_bit (4 * (7 - i)) w) mod 16)) [0..<8]"

definition hexdigest :: "sha_state \<Rightarrow> ustr" where
  "hexdigest st =
     (case st of (a, b, c, d, e, f, g, h) \<Rightarrow>
        hex8 a @ hex8 b @ hex8 c @ hex8 d @ hex8 e @ hex8 f @ hex8 g @ hex8 h)"

subsection \<open>_key_id and KEY_ID_BY_KEY\<close>

text \<open>
  \<open>hashlib.sha256(key.encode("utf-8")).hexdigest()[:16]\<close>; the encoding raises for a key
  with a lone surrogate.
\<close>

definition key_id :: "ustr \<Rightarrow> error + ustr" where
  "key_id key =
     (case utf8_encode key of
        None \<Rightarrow> Inl UnicodeEncodeError
      | Some b \<Rightarrow> Inr (take 16 (hexdigest (sha256 b))))"

section \<open>The cooldown store (app.py, lines 119 to 334)\<close>

subsection \<open>Configuration and state\<close>

text \<open>
  The module's constants after import and its mutable globals. Time stamps are what
  \<open>time.time()\<close> returns, a real number; a cooldown map holds JSON values, because
  \<open>load_cooldowns\<close> can leave in it whatever the file held. Floats of the file are the
  real numbers they denote (\<open>NaN\<close> and the infinities are outside the model). Each
  function below reads the clock once, as the argument \<open>now\<close>. The field \<open>written\<close>
  is not a global of the program: it lists the documents \<open>save_cooldowns\<close> has written to
  \<open>cooldown_state.json\<close>, the newest first.
\<close>

record config =
  CANDIDATE_URLS :: "ustr list"
  CANDIDATE_API_KEYS :: "ustr list"
  KEY_ID_BY_KEY :: "(ustr \<times> ustr) list"

record store =
  key_usage_count :: "(ustr \<times> int) list"
  key_cooldown_until :: "(ustr \<times> real json) list"
  url_cooldown_until :: "(ustr \<times> real json) list"
  pending_cooldown_keys :: "(ustr \<times> ustr list) list"
  nonessential_traffic_disabled :: bool
  written :: "real json list"

text \<open>
  A function that can raise returns the exception with the store as the raise left it, or
  its value with the new store.
\<close>

type_synonym 'a outcome = "(error \<times> store) + ('a \<times> store)"

definition KEY_COOLDOWN_HOURS :: real where
  "KEY_COOLDOWN_HOURS = 72"

definition URL_COOLDOWN_HOURS :: real where
  "URL_COOLDOWN_HOURS = 72"

definition COOLDOWN_SCHEMA_VERSION :: int where
  "COOLDOWN_SCHEMA_VERSION = 2"

text \<open>
  \<open>KEY_ID_BY_KEY = {key: _key_id(key) for key in CANDIDATE_API_KEYS}\<close>; a repeated key
  gets the same identifier again.
\<close>

fun key_ids :: "ustr list \<Rightarrow> error + (ustr \<times> ustr) list" where
  "key_ids [] = Inr []"
| "key_ids (key # keys) =
     (case key_id key of
        Inl e \<Rightarrow> Inl e
      | Inr kid \<Rightarrow> (case key_ids keys of Inl e \<Rightarrow> Inl e | Inr t \<Rightarrow> Inr ((key, kid) # t)))"

definition load_config :: "ustr list \<Rightarrow> ustr list \<Rightarrow> error + config" where
  "load_config urls keys =
     (case key_ids keys of
        Inl e \<Rightarrow> Inl e
      | Inr t \<Rightarrow> Inr \<lparr>CANDIDATE_URLS = urls, CANDIDATE_API_KEYS = keys, KEY_ID_BY_KEY = t\<rparr>)"

text \<open>\<open>KEY_ID_BY_KEY.get(key) or _key_id(key)\<close>: an empty string counts as false.\<close>

definition kid_of :: "config \<Rightarrow> ustr \<Rightarrow> error + ustr" where
  "kid_of cfg key =
     (case map_of (KEY_ID_BY_KEY cfg) key of
        None \<Rightarrow> key_id key
      | Some kid \<Rightarrow> (if kid = [] then key_id key else Inr kid))"

text \<open>
  The number a JSON value is in a comparison with a float: an \<open>int\<close>, a \<open>float\<close>, or a
  \<open>bool\<close> (0 or 1); comparing anything else with a float raises TypeError.
\<close>

definition num_of :: "real json \<Rightarrow> real option" where
  "num_of v =
     (case v of
        JInt i \<Rightarrow> Some (of_int i)
      | JFloat r \<Rightarrow> Some r
      | JBool b \<Rightarrow> Some (if b then 1 else 0)
      | _ \<Rightarrow> None)"

subsection \<open>save_cooldowns and load_cooldowns\<close>

definition cooldown_document :: "store \<Rightarrow> real json" where
  "cooldown_document st =
     JDict [(py_str ''schema_version'', JInt COOLDOWN_SCHEMA_VERSION),
            (py_str ''keys'', JDict (key_cooldown_until st)),
            (py_str ''urls'', JDict (url_cooldown_until st))]"

definition save_cooldowns :: "store \<Rightarrow> store" where
  "save_cooldowns st = st\<lparr>written := cooldown_document st # written st\<rparr>"

text \<open>\<open>re.fullmatch(r"[0-9a-f]{16}", k)\<close>.\<close>

definition is_key_id :: "ustr \<Rightarrow> bool" where
  "is_key_id k \<longleftrightarrow> length k = 16 \<and> list_all is_lower_hex k"

text \<open>
  The loop of lines 158 to 167 over \<open>raw_keys.items()\<close>; every key of a JSON object is a
  \<open>str\<close>. \<open>schema_version >= 2\<close> is evaluated first and raises TypeError when the
  version is not a number.
\<close>

fun normalize ::
  "config \<Rightarrow> real json \<Rightarrow> (ustr \<times> real json) list \<Rightarrow> (ustr \<times> real json) list \<Rightarrow>
   error + (ustr \<times> real json) list" where
  "normalize cfg schema_version [] normalized = Inr normalized"
| "normalize cfg schema_version ((k, v) # raw_keys) normalized =
     (case num_of schema_version of
        None \<Rightarrow> Inl TypeError
      | Some version \<Rightarrow>
          (if version \<ge> 2 \<and> is_key_id k then
             normalize cfg schema_version raw_keys (AList.update k v normalized)
           else
             (case map_of (KEY_ID_BY_KEY cfg) k of
                Some kid \<Rightarrow> normalize cfg schema_version raw_keys (AList.update kid v normalized)
              | None \<Rightarrow> normalize cfg schema_version raw_keys normalized)))"

text \<open>\<open>{k: v for k, v in d.items() if v > now}\<close>.\<close>

fun unexpired :: "real \<Rightarrow> (ustr \<times> real json) list \<Rightarrow> error + (ustr \<times> real json) list" where
  "unexpired now [] = Inr []"
| "unexpired now ((k, v) # d) =
     (case num_of v of
        None \<Rightarrow> Inl TypeError
      | Some t \<Rightarrow>
          (case unexpired now d of
             Inl e \<Rightarrow> Inl e
           | Inr rest \<Rightarrow> Inr (if t > now then (k, v) # rest else rest)))"

definition dict_get :: "(ustr \<times> 'f json) list \<Rightarrow> ustr \<Rightarrow> 'f json \<Rightarrow> 'f json" where
  "dict_get d k dflt = (case map_of d k of None \<Rightarrow> dflt | Some v \<Rightarrow> v)"

text \<open>
  \<open>load_cooldowns\<close>, run once at import with both maps empty. The file is \<open>None\<close> when
  it does not exist or cannot be read as JSON. The result is the pair of the two globals;
  \<open>url_cooldown_until\<close> is whatever the file had under \<open>urls\<close> until its filter has
  run. Every exception is caught by the function's \<open>except Exception\<close> and leaves the
  globals as the statements before it set them.
\<close>

definition load_cooldowns ::
  "config \<Rightarrow> real \<Rightarrow> real json option \<Rightarrow> (ustr \<times> real json) list \<times> real json" where
  "load_cooldowns cfg now file =
     (case file of
        None \<Rightarrow> ([], JDict [])
      | Some (JDict data) \<Rightarrow>
          (let raw_keys = dict_get data (py_str ''keys'') (JDict []);
               urls = dict_get data (py_str ''urls'') (JDict []);
               schema_version = dict_get data (py_str ''schema_version'') (JInt 1)
           in (case (case raw_keys of
                       JDict raw \<Rightarrow> normalize cfg schema_version raw []
                     | _ \<Rightarrow> Inr []) of
                 Inl e \<Rightarrow> ([], urls)
               | Inr normalized \<Rightarrow>
                   (case unexpired now normalized of
                      Inl e \<Rightarrow> (normalized, urls)
                    | Inr keys \<Rightarrow>
                        (case urls of
                           JDict u \<Rightarrow>
                             (case unexpired now u of
                                Inl e \<Rightarrow> (keys, urls)
                              | Inr live \<Rightarrow> (keys, JDict live))
                         | _ \<Rightarrow> (keys, urls)))))
      | Some _ \<Rightarrow> ([], JDict []))"

text \<open>
  The module's globals after import (lines 140 to 279): the usage counts at zero, the key
  cooldowns as loaded, and \<open>url_cooldown_until\<close> empty, since line 279 assigns \<open>{}\<close> to it
  after \<open>load_cooldowns()\<close> has run at line 205. \<open>latch\<close> is whether the environment has
  \<open>CLAUDE_CODE_DISABLE_NONESSENTIAL_TRAFFIC\<close> set to \<open>1\<close>.
\<close>

definition startup :: "config \<Rightarrow> real \<Rightarrow> real json option \<Rightarrow> bool \<Rightarrow> store" where
  "startup cfg now file latch =
     \<lparr>key_usage_count = fold (\<lambda>key d. AList.update key 0 d) (CANDIDATE_API_KEYS cfg) [],
      key_cooldown_until = fst (load_cooldowns cfg now file),
      url_cooldown_until = [],
      pending_cooldown_keys = [],
      nonessential_traffic_disabled = latch,
      written = []\<rparr>"

subsection \<open>Pending cooldowns\<close>

definition add_pending_cooldown :: "config \<Rightarrow> ustr \<Rightarrow> ustr \<Rightarrow> store \<Rightarrow> unit outcome" where
  "add_pending_cooldown cfg url key st =
     (let st1 = (if map_of (pending_cooldown_keys st) url = None
                 then st\<lparr>pending_cooldown_keys := AList.update url [] (pending_cooldown_keys st)\<rparr>
                 else st)
      in (case kid_of cfg key of
            Inl e \<Rightarrow> Inl (e, st1)
          | Inr kid \<Rightarrow>
              (let kids = (case map_of (pending_cooldown_keys st1) url of
                             None \<Rightarrow> [] | Some l \<Rightarrow> l)
               in if kid \<notin> set kids
                  then Inr ((), st1\<lparr>pending_cooldown_keys :=
                                      AList.update url (kids @ [kid]) (pending_cooldown_keys st1)\<rparr>)
                  else Inr ((), st1))))"

definition confirm_cooldown_for_url :: "real \<Rightarrow> ustr \<Rightarrow> store \<Rightarrow> store" where
  "confirm_cooldown_for_url now url st =
     (case map_of (pending_cooldown_keys st) url of
        None \<Rightarrow> st
      | Some kids \<Rightarrow>
          (if kids = [] then st
           else save_cooldowns
                  (st\<lparr>key_cooldown_until :=
                        fold (\<lambda>kid d. AList.update kid (JFloat (now + KEY_COOLDOWN_HOURS * 3600)) d)
                          kids (key_cooldown_until st),
                      pending_cooldown_keys := AList.update url [] (pending_cooldown_keys st)\<rparr>)))"

definition clear_pending_cooldown :: "ustr \<Rightarrow> store \<Rightarrow> store" where
  "clear_pending_cooldown url st =
     (if map_of (pending_cooldown_keys st) url \<noteq> None
      then st\<lparr>pending_cooldown_keys := AList.update url [] (pending_cooldown_keys st)\<rparr>
      else st)"

subsection \<open>Key cooldowns\<close>

definition set_key_cooldown :: "config \<Rightarrow> real \<Rightarrow> ustr \<Rightarrow> store \<Rightarrow> bool outcome" where
  "set_key_cooldown cfg now key st =
     (case kid_of cfg key of
        Inl e \<Rightarrow> Inl (e, st)
      | Inr kid \<Rightarrow>
          Inr (True, save_cooldowns
                 (st\<lparr>key_cooldown_until :=
                       AList.update kid (JFloat (now + KEY_COOLDOWN_HOURS * 3600))
                         (key_cooldown_until st)\<rparr>)))"

definition is_key_in_cooldown :: "config \<Rightarrow> real \<Rightarrow> ustr \<Rightarrow> store \<Rightarrow> bool outcome" where
  "is_key_in_cooldown cfg now key st =
     (case kid_of cfg key of
        Inl e \<Rightarrow> Inl (e, st)
      | Inr kid \<Rightarrow>
          (case map_of (key_cooldown_until st) kid of
             None \<Rightarrow> Inr (False, st)
           | Some v \<Rightarrow>
               (case num_of v of
                  None \<Rightarrow> Inl (TypeError, st)
                | Some until \<Rightarrow>
                    (if now \<ge> until
                     then Inr (False, save_cooldowns
                            (st\<lparr>key_cooldown_until := AList.delete kid (key_cooldown_until st)\<rparr>))
                     else Inr (True, st)))))"

text \<open>\<open>[k for k in CANDIDATE_API_KEYS if not is_key_in_cooldown(k)]\<close>, key by key.\<close>

fun keys_not_cooling :: "config \<Rightarrow> real \<Rightarrow> ustr list \<Rightarrow> store \<Rightarrow> ustr list outcome" where
  "keys_not_cooling cfg now [] st = Inr ([], st)"
| "keys_not_cooling cfg now (k # keys) st =
     (case is_key_in_cooldown cfg now k st of
        Inl x \<Rightarrow> Inl x
      | Inr (cooling, st1) \<Rightarrow>
          (case keys_not_cooling cfg now keys st1 of
             Inl x \<Rightarrow> Inl x
           | Inr (rest, st2) \<Rightarrow> Inr (if cooling then rest else k # rest, st2)))"

definition get_available_keys :: "config \<Rightarrow> real \<Rightarrow> store \<Rightarrow> ustr list outcome" where
  "get_available_keys cfg now st = keys_not_cooling cfg now (CANDIDATE_API_KEYS cfg) st"

subsection \<open>URL cooldowns\<close>

definition set_url_cooldown :: "real \<Rightarrow> ustr \<Rightarrow> store \<Rightarrow> store" where
  "set_url_cooldown now url st =
     save_cooldowns
       (st\<lparr>url_cooldown_until :=
             AList.update url (JFloat (now + URL_COOLDOWN_HOURS * 3600)) (url_cooldown_until st)\<rparr>)"

definition is_url_in_cooldown :: "real \<Rightarrow> ustr \<Rightarrow> store \<Rightarrow> bool outcome" where
  "is_url_in_cooldown now url st =
     (case map_of (url_cooldown_until st) url of
        None \<Rightarrow> Inr (False, st)
      | Some v \<Rightarrow>
          (case num_of v of
             None \<Rightarrow> Inl (TypeError, st)
           | Some until \<Rightarrow>
               (if now \<ge> until
                then Inr (False, st\<lparr>url_cooldown_until := AList.delete url (url_cooldown_until st)\<rparr>)
                else Inr (True, st))))"

fun urls_not_cooling :: "real \<Rightarrow> ustr list \<Rightarrow> store \<Rightarrow> ustr list outcome" where
  "urls_not_cooling now [] st = Inr ([], st)"
| "urls_not_cooling now (u # urls) st =
     (case is_url_in_cooldown now u st of
        Inl x \<Rightarrow> Inl x
      | Inr (cooling, st1) \<Rightarrow>
          (case urls_not_cooling now urls st1 of
             Inl x \<Rightarrow> Inl x
           | Inr (rest, st2) \<Rightarrow> Inr (if cooling then rest else u # rest, st2)))"

text \<open>
  The sort key \<open>d.get(k, 0)\<close> of a cooldown map, as a number. The program sorts and takes
  minima by these keys only after every candidate was found in cooldown, and then each
  has a number in the map; a value that is not a number is a TypeError here.
\<close>

definition expiry :: "(ustr \<times> real json) list \<Rightarrow> ustr \<Rightarrow> error + real" where
  "expiry d k =
     (case map_of d k of
        None \<Rightarrow> Inr 0
      | Some v \<Rightarrow> (case num_of v of None \<Rightarrow> Inl TypeError | Some t \<Rightarrow> Inr t))"

fun expiries :: "(ustr \<Rightarrow> error + real) \<Rightarrow> ustr list \<Rightarrow> error + (ustr \<times> real) list" where
  "expiries f [] = Inr []"
| "expiries f (k # ks) =
     (case f k of
        Inl e \<Rightarrow> Inl e
      | Inr t \<Rightarrow> (case expiries f ks of Inl e \<Rightarrow> Inl e | Inr rest \<Rightarrow> Inr ((k, t) # rest)))"

text \<open>\<open>min(xs, key=...)\<close> keeps the first of the least elements.\<close>

fun min_by :: "('a \<times> real) \<Rightarrow> ('a \<times> real) list \<Rightarrow> 'a" where
  "min_by best [] = fst best"
| "min_by best (x # xs) = min_by (if snd x < snd best then x else best) xs"

definition get_available_urls :: "config \<Rightarrow> real \<Rightarrow> store \<Rightarrow> ustr list outcome" where
  "get_available_urls cfg now st =
     (case urls_not_cooling now (CANDIDATE_URLS cfg) st of
        Inl x \<Rightarrow> Inl x
      | Inr (available, st1) \<Rightarrow>
          (if available = [] \<and> CANDIDATE_URLS cfg \<noteq> [] then
             (case expiries (expiry (url_cooldown_until st1)) (CANDIDATE_URLS cfg) of
                Inl e \<Rightarrow> Inl (e, st1)
              | Inr [] \<Rightarrow> Inr ([], st1)
              | Inr (x # xs) \<Rightarrow> Inr ([min_by x xs], st1))
           else Inr (if available \<noteq> [] then available else CANDIDATE_URLS cfg, st1)))"

subsection \<open>Key usage\<close>

definition usage :: "store \<Rightarrow> ustr \<Rightarrow> int" where
  "usage st k = (case map_of (key_usage_count st) k of None \<Rightarrow> 0 | Some n \<Rightarrow> n)"

definition key_expiry :: "config \<Rightarrow> store \<Rightarrow> ustr \<Rightarrow> error + real" where
  "key_expiry cfg st k =
     (case kid_of cfg k of Inl e \<Rightarrow> Inl e | Inr kid \<Rightarrow> expiry (key_cooldown_until st) kid)"

text \<open>
  \<open>sorted(xs, key=...)\<close> is a stable sort, and so is \<open>sort_key\<close>; the result of a stable
  sort is determined by the list and the keys.
\<close>

definition get_keys_sorted_by_usage :: "config \<Rightarrow> real \<Rightarrow> store \<Rightarrow> ustr list outcome" where
  "get_keys_sorted_by_usage cfg now st =
     (case get_available_keys cfg now st of
        Inl x \<Rightarrow> Inl x
      | Inr (available_keys, st1) \<Rightarrow>
          (if available_keys = [] then
             (case expiries (key_expiry cfg st1) (CANDIDATE_API_KEYS cfg) of
                Inl e \<Rightarrow> Inl (e, st1)
              | Inr kts \<Rightarrow> Inr (map fst (sort_key snd kts), st1))
           else Inr (sort_key (usage st1) available_keys, st1)))"

definition increment_key_usage :: "ustr \<Rightarrow> store \<Rightarrow> store" where
  "increment_key_usage key st =
     st\<lparr>key_usage_count :=
          (case map_of (key_usage_count st) key of
             Some n \<Rightarrow> AList.update key (n + 1) (key_usage_count st)
           | None \<Rightarrow> AList.update key 1 (key_usage_count st))\<rparr>"

subsection \<open>What the claims say of the store\<close>

text \<open>
  A key is in cooldown at \<open>now\<close> when the map has, under its identifier, a number above
  \<open>now\<close>. A key is readable when it has an identifier and its entry, if any, is a
  number, so that checking it does not raise. \<open>expiry_of\<close> is the expiry the fallback
  order sorts by, 0 for a key without an entry. \<open>expired_removed\<close> relates a store to a
  later one from which entries that had expired at \<open>now\<close> may have been removed (and
  saved), with the usage counts, the URL cooldowns, the pending lists and the latch unchanged.
\<close>

definition cooling :: "config \<Rightarrow> real \<Rightarrow> store \<Rightarrow> ustr \<Rightarrow> bool" where
  "cooling cfg now st k =
     (case kid_of cfg k of
        Inl e \<Rightarrow> False
      | Inr kid \<Rightarrow>
          (case map_of (key_cooldown_until st) kid of
             None \<Rightarrow> False
           | Some v \<Rightarrow> (case num_of v of None \<Rightarrow> False | Some until \<Rightarrow> now < until)))"

definition readable :: "config \<Rightarrow> store \<Rightarrow> ustr \<Rightarrow> bool" where
  "readable cfg st k =
     (case kid_of cfg k of
        Inl e \<Rightarrow> False
      | Inr kid \<Rightarrow>
          (case map_of (key_cooldown_until st) kid of
             None \<Rightarrow> True
           | Some v \<Rightarrow> num_of v \<noteq> None))"



text \<open>
  The stores a process can be in: the store after import, for a configuration whose
  import succeeded and any content of the cooldown file, and every store one of the
  functions above leaves, whether it returns or raises (\<open>set_key_cooldown\<close>,
  \<open>is_key_in_cooldown\<close> and \<open>is_url_in_cooldown\<close> raise before they change anything). The
  request handler changes the store through these functions only, and by setting the latch.
\<close>

inductive reachable :: "config \<Rightarrow> store \<Rightarrow> bool" for cfg :: config where
  start: "load_config urls keys = Inr cfg \<Longrightarrow> reachable cfg (startup cfg now file latch)"
| add_pending:
    "reachable cfg st \<Longrightarrow> add_pending_cooldown cfg url key st = Inr ((), st') \<Longrightarrow> reachable cfg st'"
| add_pending_raise:
    "reachable cfg st \<Longrightarrow> add_pending_cooldown cfg url key st = Inl (e, st') \<Longrightarrow> reachable cfg st'"
| confirm: "reachable cfg st \<Longrightarrow> reachable cfg (confirm_cooldown_for_url now url st)"
| clear: "reachable cfg st \<Longrightarrow> reachable cfg (clear_pending_cooldown url st)"
| set_key:
    "reachable cfg st \<Longrightarrow> set_key_cooldown cfg now key st = Inr (b, st') \<Longrightarrow> reachable cfg st'"
| is_key:
    "reachable cfg st \<Longrightarrow> is_key_in_cooldown cfg now key st = Inr (b, st') \<Longrightarrow> reachable cfg st'"
| set_url: "reachable cfg st \<Longrightarrow> reachable cfg (set_url_cooldown now url st)"
| is_url:
    "reachable cfg st \<Longrightarrow> is_url_in_cooldown now url st = Inr (b, st') \<Longrightarrow> reachable cfg st'"
| increment: "reachable cfg st \<Longrightarrow> reachable cfg (increment_key_usage key st)"
| latch: "reachable cfg st \<Longrightarrow> reachable cfg (st\<lparr>nonessential_traffic_disabled := True\<rparr>)"
| save: "reachable cfg st \<Longrightarrow> reachable cfg (save_cooldowns st)"

text \<open>
  A cooldown document whose \<open>keys\<close> member is an object with key identifiers only
  as names, each matching \<open>[0-9a-f]{16}\<close>; and the same of the two maps of a store that
  hold identifiers.
\<close>

definition doc_keys_ok :: "real json \<Rightarrow> bool" where
  "doc_keys_ok doc =
     (case doc of
        JDict d \<Rightarrow>
          (case map_of d (py_str ''keys'') of
             Some (JDict ks) \<Rightarrow> list_all is_key_id (map fst ks)
           | _ \<Rightarrow> False)
      | _ \<Rightarrow> False)"

definition kids_ok :: "store \<Rightarrow> bool" where
  "kids_ok st \<longleftrightarrow>
     list_all is_key_id (map fst (key_cooldown_until st)) \<and>
     list_all (\<lambda>p. list_all is_key_id (snd p)) (pending_cooldown_keys st) \<and>
     list_all doc_keys_ok (written st)"

subsection \<open>A configuration and stores for the concrete instances\<close>

text \<open>
  One URL and one key, with the key's identifier as \<open>_key_id\<close> computes it (the hash is
  left as it is written here), and the store of a process whose key and URL both have a
  cooldown that ends at time 1000.
\<close>

definition example_url :: ustr where
  "example_url = py_str ''https://anyrouter.top''"

definition example_key :: ustr where
  "example_key = py_str ''sk-key-1''"

definition example_kid :: ustr where
  "example_kid = take 16 (hexdigest (sha256 (py_bytes ''sk-key-1'')))"

definition example_cfg :: config where
  "example_cfg =
     \<lparr>CANDIDATE_URLS = [example_url], CANDIDATE_API_KEYS = [example_key],
      KEY_ID_BY_KEY = [(example_key, example_kid)]\<rparr>"

definition empty_store :: store where
  "empty_store =
     \<lparr>key_usage_count = [(example_key, 0)], key_cooldown_until = [],
      url_cooldown_until = [], pending_cooldown_keys = [],
      nonessential_traffic_disabled = False, written = []\<rparr>"

text \<open>
  A cooldown file of schema version 1, with the plaintext key, one unknown plaintext key and
  times 2000 and 3000; and one whose first time has passed at time 2500.
\<close>

definition v1_file :: "real json" where
  "v1_file =
     JDict [(py_str ''keys'', JDict [(example_key, JFloat 2000), (py_str ''sk-gone'', JFloat 3000)]),
            (py_str ''urls'', JDict [])]"

definition cooling_store :: store where
  "cooling_store =
     empty_store\<lparr>key_cooldown_until := [(example_kid, JFloat 1000)],
                 url_cooldown_until := [(example_url, JFloat 1000)]\<rparr>"

text \<open>
  Three keys, with usage counts 2, 0 and 2 and no cooldown.
\<close>

definition three_cfg :: config where
  "three_cfg =
     \<lparr>CANDIDATE_URLS = [example_url],
      CANDIDATE_API_KEYS = [py_str ''sk-a'', py_str ''sk-b'', py_str ''sk-c''],
      KEY_ID_BY_KEY =
        [(py_str ''sk-a'', take 16 (hexdigest (sha256 (py_bytes ''sk-a'')))),
         (py_str ''sk-b'', take 16 (hexdigest (sha256 (py_bytes ''sk-b'')))),
         (py_str ''sk-c'', take 16 (hexdigest (sha256 (py_bytes ''sk-c''))))]\<rparr>"





text \<open>
  The cooldown entries of the keys are all numbers, in a store and in a cooldown file.
\<close>

definition numeric :: "store \<Rightarrow> bool" where
  "numeric st \<longleftrightarrow> list_all (\<lambda>p. num_of (snd p) \<noteq> None) (key_cooldown_until st)"

definition numeric_file :: "real json option \<Rightarrow> bool" where
  "numeric_file file =
     (case file of
        Some (JDict data) \<Rightarrow>
          (case map_of data (py_str ''keys'') of
             Some (JDict raw) \<Rightarrow> list_all (\<lambda>p. num_of (snd p) \<noteq> None) raw
           | _ \<Rightarrow> True)
      | _ \<Rightarrow> True)"

section \<open>The retry context (app.py, lines 55 to 116)\<close>

definition DEFAULT_PROBE_MODEL :: ustr where
  "DEFAULT_PROBE_MODEL = py_str ''claude-sonnet-4-5-20250929''"

definition MAX_RETRY_ATTEMPTS :: nat where
  "MAX_RETRY_ATTEMPTS = 2"

text \<open>
  The truth value of a JSON value, for \<open>model if model else DEFAULT_PROBE_MODEL\<close>; a float
  carries the text \<open>json.dumps\<close> writes for it, and zero is written \<open>0.0\<close> or \<open>-0.0\<close>.
\<close>

definition truthy :: "ustr json \<Rightarrow> bool" where
  "truthy v =
     (case v of
        JNull \<Rightarrow> False
      | JBool b \<Rightarrow> b
      | JInt i \<Rightarrow> i \<noteq> 0
      | JFloat t \<Rightarrow> t \<noteq> py_str ''0.0'' \<and> t \<noteq> py_str ''-0.0''
      | JStr s \<Rightarrow> s \<noteq> []
      | JList xs \<Rightarrow> xs \<noteq> []
      | JDict d \<Rightarrow> d \<noteq> [])"

text \<open>\<open>json.dumps(probe_body, separators=(',', ':')).encode('utf-8')\<close>, with \<open>ensure_ascii\<close> at its default.\<close>

definition create_probe_body :: "ustr json \<Rightarrow> error + bytes" where
  "create_probe_body model =
     (let probe_model = (if truthy model then model else JStr DEFAULT_PROBE_MODEL)
      in (case utf8_encode (dumps True
                (JDict [(py_str ''model'', probe_model),
                        (py_str ''max_tokens'', JInt 1),
                        (py_str ''messages'',
                           JList [JDict [(py_str ''role'', JStr (py_str ''user'')),
                                         (py_str ''content'', JStr (py_str ''ping''))]])])) of
            None \<Rightarrow> Inl UnicodeEncodeError
          | Some b \<Rightarrow> Inr b))"

text \<open>
  \<open>data.get('model', DEFAULT_PROBE_MODEL)\<close>; a body that is not JSON, or not an object,
  raises inside the \<open>try\<close>, whose bare \<open>except\<close> gives the default.
\<close>

definition extract_model_from_body :: "library \<Rightarrow> bytes \<Rightarrow> ustr json" where
  "extract_model_from_body lib body =
     (case lib_loads lib body of
        Inr (JDict data) \<Rightarrow> dict_get data (py_str ''model'') (JStr DEFAULT_PROBE_MODEL)
      | _ \<Rightarrow> JStr DEFAULT_PROBE_MODEL)"

record retry_context =
  original_body :: bytes
  user_model :: "ustr json"
  probe_body :: bytes
  full_context_attempts :: int
  probe_attempts :: int
  probe_succeeded_but_full_failed :: bool
  last_working_url :: "ustr option"
  last_working_key :: "ustr option"

definition new_retry_context :: "library \<Rightarrow> bytes \<Rightarrow> error + retry_context" where
  "new_retry_context lib body =
     (case create_probe_body (extract_model_from_body lib body) of
        Inl e \<Rightarrow> Inl e
      | Inr probe \<Rightarrow>
          Inr \<lparr>original_body = body,
               user_model = extract_model_from_body lib body,
               probe_body = probe,
               full_context_attempts = 0,
               probe_attempts = 0,
               probe_succeeded_but_full_failed = False,
               last_working_url = None,
               last_working_key = None\<rparr>)"

definition should_use_probe :: "retry_context \<Rightarrow> bool" where
  "should_use_probe c \<longleftrightarrow> full_context_attempts c \<ge> 2"

definition get_request_body :: "retry_context \<Rightarrow> bytes" where
  "get_request_body c = (if should_use_probe c then probe_body c else original_body c)"

definition record_attempt ::
  "bool \<Rightarrow> bool \<Rightarrow> ustr option \<Rightarrow> ustr option \<Rightarrow> retry_context \<Rightarrow> retry_context" where
  "record_attempt is_probe success u k c =
     (if is_probe then
        (if success
         then c\<lparr>probe_attempts := probe_attempts c + 1, last_working_url := u, last_working_key := k\<rparr>
         else c\<lparr>probe_attempts := probe_attempts c + 1\<rparr>)
      else c\<lparr>full_context_attempts := full_context_attempts c + 1\<rparr>)"

section \<open>The failover engine (app.py, proxy)\<close>

subsection \<open>Requests, replies and the environment of a request\<close>

text \<open>
  The handler reads the path and the body of the request; the method, the query and the
  headers go into the upstream request and decide no branch, and neither do the WAF
  cookies, whose cache is not modelled (\<open>fetch_waf_cookie\<close> catches its exceptions and
  its result is not used; \<open>solve_acw_challenge\<close> does not raise). An upstream request
  either raises \<open>httpx.RequestError\<close> or gives a response, of which the engine reads the
  status, the \<open>content-type\<close> header (\<open>''\<close> when absent) and, on an error status, the
  body as text; reading the body (\<open>aread\<close>) may raise \<open>httpx.RequestError\<close> too. The
  upstream is a function of how many requests the handler has sent so far.
  \<open>env_loads_text\<close> stands for \<open>json.loads\<close> on the text of a response, with the
  exception it raises; each of its uses is in a \<open>try\<close> with a bare \<open>except\<close>.

  The log lines that show a string of the request, of the configuration or of a response
  are modelled with \<open>lib_print\<close>: the path (lines 682 and 687), the URL (line 724), the
  preview of the key (lines 744 and 747) and \<open>error_msg[:100]\<close> (lines 902 and 907, inside
  a \<open>try\<close>); the fixed parts of the lines, the numbers and the messages of the
  exceptions of \<open>httpx\<close> are taken to print. Building a request or a response object
  and parsing a configured URL are taken not to raise, and \<open>DEBUG_MODE\<close> to be off.
\<close>

record request =
  req_path :: ustr
  req_body :: bytes

record response =
  status_code :: int
  content_type :: ustr
  read_error :: bool
  resp_text :: ustr

datatype reply = RequestError | Reply response

record env =
  env_cfg :: config
  env_replacement :: "ustr option"
  env_insert :: bool
  env_lib :: library
  env_loads_text :: "ustr \<Rightarrow> error + ustr json"
  env_upstream :: "nat \<Rightarrow> reply"
  env_now :: real

text \<open>The entries of \<open>all_errors\<close>, by what their text is made of.\<close>

datatype error_note =
    ProbeOkFullFailed ustr int
  | WafFailed ustr
  | Overloaded ustr
  | KeyInvalid ustr
  | HttpStatus ustr int
  | AuthFailed ustr int
  | TransportFailed ustr ustr

text \<open>
  What the handler returns: the streamed response of a successful upstream request, a 4xx
  passed through, the \<open>content_error_after_probe\<close> response, or the 502 after the loops,
  with whether a probe had succeeded; or the exception it raises.
\<close>

datatype http_result =
    Streamed ustr ustr response
  | Returned int ustr
  | ContentError int
  | Exhausted bool "error_note list"
  | Crashed error

text \<open>
  One upstream request as the handler sent it, for stating the claims: URL, key, body,
  whether the key's iteration runs in probe mode, the attempt number, whether it is the
  full request sent again after a probe succeeded, and \<open>full_context_attempts\<close> at that
  moment.
\<close>

record sending =
  s_url :: ustr
  s_key :: ustr
  s_body :: bytes
  s_probe :: bool
  s_attempt :: nat
  s_resend :: bool
  s_full :: int

text \<open>
  The variables of a request between two steps: the globals, the retry context,
  \<open>all_errors\<close>, the number of upstream requests sent and their list.
\<close>

record run =
  run_store :: store
  run_ctx :: retry_context
  run_errors :: "error_note list"
  run_sent :: nat
  run_trace :: "sending list"

text \<open>
  How a part of the attempt loop's body ends: \<open>continue\<close>, \<open>break\<close>, \<open>return\<close>, or by
  reaching its end, which is also where a \<open>try\<close> whose \<open>except: pass\<close> caught an exception
  ends.
\<close>

datatype flow = Continue | Break | Return http_result | Pass

subsection \<open>Reading an error body\<close>

text \<open>\<open>d.get(k, default)\<close>, an AttributeError on a value that is not a dict.\<close>

definition py_get :: "ustr json \<Rightarrow> ustr \<Rightarrow> ustr json \<Rightarrow> error + ustr json" where
  "py_get v k dflt = (case v of JDict d \<Rightarrow> Inr (dict_get d k dflt) | _ \<Rightarrow> Inl AttributeError)"

text \<open>\<open>error_data.get('error', {}).get(name, '')\<close>.\<close>

definition error_member :: "ustr json \<Rightarrow> ustr \<Rightarrow> error + ustr json" where
  "error_member error_data name =
     (case py_get error_data (py_str ''error'') (JDict []) of
        Inl e \<Rightarrow> Inl e
      | Inr err \<Rightarrow> py_get err name (JStr []))"

text \<open>The two Chinese characters of line 901, \<open>U+8D1F U+8F7D\<close> (load).\<close>

definition FUZAI :: ustr where
  "FUZAI = [36127, 36733]"

text \<open>
  \<open>'..' in error_msg or 'overload' in error_msg.lower()\<close>: a string is searched; a
  list or a dict is searched for an equal element or key and has no \<open>lower\<close>;
  anything else cannot be searched.
\<close>

definition overloaded_message :: "(ustr \<Rightarrow> ustr) \<Rightarrow> ustr json \<Rightarrow> error + bool" where
  "overloaded_message lower error_msg =
     (case error_msg of
        JStr s \<Rightarrow> Inr (str_contains FUZAI s \<or> str_contains (py_str ''overload'') (lower s))
      | JList xs \<Rightarrow> (if JStr FUZAI \<in> set xs then Inr True else Inl AttributeError)
      | JDict d \<Rightarrow> (if FUZAI \<in> fst ` set d then Inr True else Inl AttributeError)
      | _ \<Rightarrow> Inl TypeError)"

text \<open>
  The log line with \<open>error_msg[:100]\<close> of lines 902 and 907: whether it is printed;
  otherwise the slice (of a dict) or \<open>print\<close> raises, inside the \<open>try\<close>.
\<close>

definition message_logged :: "library \<Rightarrow> ustr json \<Rightarrow> bool" where
  "message_logged lib error_msg =
     (case error_msg of
        JStr s \<Rightarrow> lib_print lib (take 100 s)
      | JList xs \<Rightarrow> lib_print_repr lib (JList (take 100 xs))
      | _ \<Rightarrow> False)"

definition AUTH_ERROR_TYPES :: "ustr list" where
  "AUTH_ERROR_TYPES =
     [py_str ''authentication_error'', py_str ''invalid_api_key'', py_str ''permission_error'']"

definition CONTENT_ERROR_TYPES :: "ustr list" where
  "CONTENT_ERROR_TYPES =
     [py_str ''invalid_request_error'', py_str ''content_policy_violation'',
      py_str ''request_too_large'']"

text \<open>\<open>error_type in (...)\<close>: equal to one of the strings.\<close>

definition type_in :: "ustr list \<Rightarrow> ustr json \<Rightarrow> bool" where
  "type_in types error_type = (case error_type of JStr s \<Rightarrow> s \<in> set types | _ \<Rightarrow> False)"

subsection \<open>One attempt\<close>

definition note_error :: "error_note \<Rightarrow> run \<Rightarrow> run" where
  "note_error n r = r\<lparr>run_errors := run_errors r @ [n]\<rparr>"

text \<open>
  Lines 909 to 919 and 940 to 950: the one retry with the latch, or the key goes to the
  pending list of the URL. An exception of \<open>add_pending_cooldown\<close> is caught by the
  \<open>except: pass\<close> around.
\<close>

definition auth_error :: "env \<Rightarrow> ustr \<Rightarrow> ustr \<Rightarrow> bool \<Rightarrow> error_note \<Rightarrow> run \<Rightarrow> flow \<times> run" where
  "auth_error e url key is_probe n r =
     (if \<not> nonessential_traffic_disabled (run_store r) \<and> \<not> is_probe then
        (Continue,
         r\<lparr>run_store := (run_store r)\<lparr>nonessential_traffic_disabled := True\<rparr>,
           run_ctx := (run_ctx r)\<lparr>full_context_attempts := full_context_attempts (run_ctx r) - 1\<rparr>\<rparr>)
      else
        (case add_pending_cooldown (env_cfg e) url key (run_store r) of
           Inl (x, st') \<Rightarrow> (Pass, r\<lparr>run_store := st'\<rparr>)
         | Inr (u, st') \<Rightarrow> (Break, note_error n (r\<lparr>run_store := st'\<rparr>))))"

text \<open>
  Lines 896 to 921, the \<open>try\<close> of a 5xx response with a JSON content type; an exception
  in it is caught by its \<open>except: pass\<close>.
\<close>

definition on_5xx_json :: "env \<Rightarrow> ustr \<Rightarrow> ustr \<Rightarrow> bool \<Rightarrow> response \<Rightarrow> run \<Rightarrow> flow \<times> run" where
  "on_5xx_json e url key is_probe resp r =
     (case env_loads_text e (resp_text resp) of
        Inl x \<Rightarrow> (Pass, r)
      | Inr error_data \<Rightarrow>
          (case error_member error_data (py_str ''message'') of
             Inl x \<Rightarrow> (Pass, r)
           | Inr error_msg \<Rightarrow>
               (case error_member error_data (py_str ''type'') of
                  Inl x \<Rightarrow> (Pass, r)
                | Inr error_type \<Rightarrow>
                    (case overloaded_message (lib_lower (env_lib e)) error_msg of
                       Inl x \<Rightarrow> (Pass, r)
                     | Inr True \<Rightarrow>
                         (if message_logged (env_lib e) error_msg
                          then (Break, note_error (Overloaded url) r)
                          else (Pass, r))
                     | Inr False \<Rightarrow>
                         (if type_in AUTH_ERROR_TYPES error_type
                          then (if message_logged (env_lib e) error_msg
                                then auth_error e url key is_probe (KeyInvalid key) r
                                else (Pass, r))
                          else (Pass, r))))))"

text \<open>Lines 934 to 952, the \<open>try\<close> of a 401 or 403.\<close>

definition on_4xx_auth :: "env \<Rightarrow> ustr \<Rightarrow> ustr \<Rightarrow> bool \<Rightarrow> response \<Rightarrow> run \<Rightarrow> flow \<times> run" where
  "on_4xx_auth e url key is_probe resp r =
     (case env_loads_text e (resp_text resp) of
        Inl x \<Rightarrow> (Pass, r)
      | Inr error_data \<Rightarrow>
          (case error_member error_data (py_str ''type'') of
             Inl x \<Rightarrow> (Pass, r)
           | Inr error_type \<Rightarrow>
               (if type_in AUTH_ERROR_TYPES error_type
                then auth_error e url key is_probe (AuthFailed key (status_code resp)) r
                else (Pass, r))))"

text \<open>Lines 962 to 971, the handler of \<open>httpx.RequestError\<close>.\<close>

definition on_request_error :: "ustr \<Rightarrow> ustr \<Rightarrow> bool \<Rightarrow> nat \<Rightarrow> run \<Rightarrow> flow \<times> run" where
  "on_request_error url key is_probe attempt r =
     (let r1 = r\<lparr>run_ctx := record_attempt is_probe False None None (run_ctx r)\<rparr>
      in if attempt < MAX_RETRY_ATTEMPTS then (Continue, r1)
         else (Break, note_error (TransportFailed url key) r1))"

text \<open>Lines 870 to 960, a response with a status of 400 or more.\<close>

definition on_error_response ::
  "env \<Rightarrow> ustr \<Rightarrow> ustr \<Rightarrow> bool \<Rightarrow> nat \<Rightarrow> response \<Rightarrow> run \<Rightarrow> flow \<times> run" where
  "on_error_response e url key is_probe attempt resp r =
     (let r1 = r\<lparr>run_ctx := record_attempt is_probe False None None (run_ctx r)\<rparr>
      in if str_contains (py_str ''var arg1='') (resp_text resp) then
           (if attempt < MAX_RETRY_ATTEMPTS then (Continue, r1)
            else (Break, note_error (WafFailed url) r1))
         else if status_code resp \<ge> 500 then
           (case (if str_contains (py_str ''application/json'') (content_type resp)
                  then on_5xx_json e url key is_probe resp r1 else (Pass, r1)) of
              (Pass, r2) \<Rightarrow>
                (if attempt < MAX_RETRY_ATTEMPTS then (Continue, r2)
                 else (Break, note_error (HttpStatus url (status_code resp)) r2))
            | (f, r2) \<Rightarrow> (f, r2))
         else
           (case (if status_code resp = 401 \<or> status_code resp = 403
                  then on_4xx_auth e url key is_probe resp r1 else (Pass, r1)) of
              (Pass, r2) \<Rightarrow> (Return (Returned (status_code resp) (resp_text resp)), r2)
            | (f, r2) \<Rightarrow> (f, r2)))"

text \<open>Lines 851 to 868: the pending keys of the URL are confirmed and the response streamed.\<close>

definition finish :: "env \<Rightarrow> ustr \<Rightarrow> ustr \<Rightarrow> response \<Rightarrow> run \<Rightarrow> flow \<times> run" where
  "finish e url key resp r =
     (Return (Streamed url key resp),
      r\<lparr>run_store := confirm_cooldown_for_url (env_now e) url (run_store r)\<rparr>)"

text \<open>
  Lines 815 to 845, a full request that failed after its probe succeeded: a content error
  is returned to the client, anything else ends the key.
\<close>

definition on_full_failed ::
  "env \<Rightarrow> ustr \<Rightarrow> ustr \<Rightarrow> bool \<Rightarrow> nat \<Rightarrow> response \<Rightarrow> run \<Rightarrow> flow \<times> run" where
  "on_full_failed e url key is_probe attempt full_resp r =
     (let r1 = r\<lparr>run_ctx := (run_ctx r)\<lparr>probe_succeeded_but_full_failed := True\<rparr>\<rparr>;
          content = (case env_loads_text e (resp_text full_resp) of
                       Inl x \<Rightarrow> False
                     | Inr error_data \<Rightarrow>
                         (case error_member error_data (py_str ''type'') of
                            Inl x \<Rightarrow> False
                          | Inr error_type \<Rightarrow> type_in CONTENT_ERROR_TYPES error_type))
      in if read_error full_resp then on_request_error url key is_probe attempt r1
         else if content then (Return (ContentError (status_code full_resp)), r1)
         else (Break, note_error (ProbeOkFullFailed key (status_code full_resp)) r1))"

definition send :: "ustr \<Rightarrow> ustr \<Rightarrow> bytes \<Rightarrow> bool \<Rightarrow> nat \<Rightarrow> bool \<Rightarrow> run \<Rightarrow> run" where
  "send url key content is_probe attempt resend r =
     r\<lparr>run_sent := run_sent r + 1,
       run_trace := run_trace r @
         [\<lparr>s_url = url, s_key = key, s_body = content, s_probe = is_probe, s_attempt = attempt,
           s_resend = resend, s_full = full_context_attempts (run_ctx r)\<rparr>]\<rparr>"

text \<open>
  Lines 797 to 868, a response with a status below 400: after a probe the full request is
  sent, inside the same \<open>try\<close>.
\<close>

definition on_success ::
  "env \<Rightarrow> ustr \<Rightarrow> ustr \<Rightarrow> bool \<Rightarrow> nat \<Rightarrow> response \<Rightarrow> run \<Rightarrow> flow \<times> run" where
  "on_success e url key is_probe attempt resp r =
     (let r1 = r\<lparr>run_ctx := record_attempt is_probe True (Some url) (Some key) (run_ctx r)\<rparr>
      in if is_probe then
           (case env_upstream e (run_sent r1) of
              RequestError \<Rightarrow>
                on_request_error url key is_probe attempt
                  (send url key (original_body (run_ctx r1)) is_probe attempt True r1)
            | Reply full_resp \<Rightarrow>
                (if status_code full_resp \<ge> 400
                 then on_full_failed e url key is_probe attempt full_resp
                        (send url key (original_body (run_ctx r1)) is_probe attempt True r1)
                 else finish e url key full_resp
                        (send url key (original_body (run_ctx r1)) is_probe attempt True r1)))
         else finish e url key resp r1)"

text \<open>
  The body of the attempt loop, lines 777 to 971. An exception of \<open>aread\<close> at line 871
  comes before the attempt is recorded and goes to the handler of line 962.
\<close>

definition attempt_once ::
  "env \<Rightarrow> ustr \<Rightarrow> ustr \<Rightarrow> bool \<Rightarrow> bytes \<Rightarrow> nat \<Rightarrow> run \<Rightarrow> flow \<times> run" where
  "attempt_once e url key is_probe current_body attempt r =
     (case env_upstream e (run_sent r) of
        RequestError \<Rightarrow>
          on_request_error url key is_probe attempt
            (send url key current_body is_probe attempt False r)
      | Reply resp \<Rightarrow>
          (if status_code resp < 400
           then on_success e url key is_probe attempt resp
                  (send url key current_body is_probe attempt False r)
           else if read_error resp
           then on_request_error url key is_probe attempt
                  (send url key current_body is_probe attempt False r)
           else on_error_response e url key is_probe attempt resp
                  (send url key current_body is_probe attempt False r)))"

subsection \<open>The three loops\<close>

text \<open>
  \<open>for attempt in range(1, MAX_RETRY_ATTEMPTS + 1)\<close>: a \<open>continue\<close> goes to the next
  attempt and, after the last, out of the loop like a \<open>break\<close>; the result is what the
  handler returns, if it returns here. (The body of the loop never ends by reaching its
  end.)
\<close>

fun attempts ::
  "env \<Rightarrow> ustr \<Rightarrow> ustr \<Rightarrow> bool \<Rightarrow> bytes \<Rightarrow> nat list \<Rightarrow> run \<Rightarrow> http_result option \<times> run" where
  "attempts e url key is_probe current_body [] r = (None, r)"
| "attempts e url key is_probe current_body (attempt # rest) r =
     (case attempt_once e url key is_probe current_body attempt r of
        (Return x, r') \<Rightarrow> (Some x, r')
      | (Break, r') \<Rightarrow> (None, r')
      | (f, r') \<Rightarrow> attempts e url key is_probe current_body rest r')"

text \<open>\<open>f"{current_api_key[:10]}...{current_api_key[-4:]}"\<close>.\<close>

definition key_preview :: "ustr \<Rightarrow> ustr" where
  "key_preview key = take 10 key @ py_str ''...'' @ drop (length key - 4) key"

text \<open>
  \<open>for key_idx, current_api_key in enumerate(sorted_keys)\<close>: the mode and the body are
  chosen once for the key, before its attempts. The log line of the key is outside the
  \<open>try\<close>: an exception of it leaves the handler.
\<close>

fun keys_loop :: "env \<Rightarrow> ustr \<Rightarrow> ustr list \<Rightarrow> run \<Rightarrow> http_result option \<times> run" where
  "keys_loop e url [] r = (None, r)"
| "keys_loop e url (key # rest) r =
     (let is_probe = should_use_probe (run_ctx r);
          current_body = get_request_body (run_ctx r);
          r1 = r\<lparr>run_store := increment_key_usage key (run_store r)\<rparr>
      in if \<not> lib_print (env_lib e) (key_preview key)
         then (Some (Crashed UnicodeEncodeError), r)
         else (case attempts e url key is_probe current_body [1..<MAX_RETRY_ATTEMPTS + 1] r1 of
                 (Some x, r') \<Rightarrow> (Some x, r')
               | (None, r') \<Rightarrow> keys_loop e url rest r'))"

text \<open>
  \<open>for url_idx, current_base_url in enumerate(available_urls)\<close>, with the log line of
  the URL.
\<close>

fun urls_loop :: "env \<Rightarrow> ustr list \<Rightarrow> ustr list \<Rightarrow> run \<Rightarrow> http_result option \<times> run" where
  "urls_loop e [] sorted_keys r = (None, r)"
| "urls_loop e (url # rest) sorted_keys r =
     (if \<not> lib_print (env_lib e) url then (Some (Crashed UnicodeEncodeError), r)
      else (case keys_loop e url sorted_keys r of
              (Some x, r') \<Rightarrow> (Some x, r')
            | (None, r') \<Rightarrow> urls_loop e rest sorted_keys r'))"

definition failover :: "env \<Rightarrow> ustr list \<Rightarrow> ustr list \<Rightarrow> run \<Rightarrow> http_result \<times> run" where
  "failover e available_urls sorted_keys r =
     (case urls_loop e available_urls sorted_keys r of
        (Some x, r') \<Rightarrow> (x, r')
      | (None, r') \<Rightarrow>
          (Exhausted (probe_succeeded_but_full_failed (run_ctx r')) (run_errors r'), r'))"

subsection \<open>The handler\<close>

definition start_run :: "store \<Rightarrow> retry_context \<Rightarrow> run" where
  "start_run st c = \<lparr>run_store = st, run_ctx = c, run_errors = [], run_sent = 0, run_trace = []\<rparr>"

text \<open>
  Lines 664 to 1004. An exception outside the attempt loop's \<open>try\<close> leaves the handler;
  the store then is as the raising function left it.
\<close>

definition proxy :: "env \<Rightarrow> request \<Rightarrow> store \<Rightarrow> http_result \<times> store \<times> sending list" where
  "proxy e req st =
     (if \<not> lib_print (env_lib e) (req_path req) then (Crashed UnicodeEncodeError, st, [])
      else
       (case (if req_path req = py_str ''v1/messages'' \<or> req_path req = py_str ''v1/messages/''
              then process_request_body (env_lib e) (env_replacement e) (env_insert e)
                     (req_body req)
              else Inr (req_body req)) of
          Inl x \<Rightarrow> (Crashed x, st, [])
        | Inr body \<Rightarrow>
            (case new_retry_context (env_lib e) body of
               Inl x \<Rightarrow> (Crashed x, st, [])
             | Inr retry_ctx \<Rightarrow>
                 (case get_keys_sorted_by_usage (env_cfg e) (env_now e) st of
                    Inl (x, st1) \<Rightarrow> (Crashed x, st1, [])
                  | Inr (sorted_keys, st1) \<Rightarrow>
                      (case get_available_urls (env_cfg e) (env_now e) st1 of
                         Inl (x, st2) \<Rightarrow> (Crashed x, st2, [])
                       | Inr (available_urls, st2) \<Rightarrow>
                           (case failover e available_urls sorted_keys
                                   (start_run st2 retry_ctx) of
                              (x, r) \<Rightarrow> (x, run_store r, run_trace r)))))))"

subsection \<open>What the claims say of the engine\<close>




text \<open>
  The response the engine takes for an authentication error (lines 906 and 937): a body
  that was read, has no \<open>var arg1=\<close> and is a JSON object whose \<open>error.type\<close> is one
  of the three types, with a status of 401 or 403, or with a status of 500 or more, a
  JSON content type and an \<open>error.message\<close> that is a string without the overload
  words, the log line of which is printed. \<open>auth_note\<close> is the entry of \<open>all_errors\<close>
  for it, and \<open>after_auth_retry\<close> the variables after the branch of lines 910 to 915: the
  request is in the list, the latch is set, and the counter is what it was before the
  attempt, which was counted and taken back.
\<close>

definition auth_classified :: "env \<Rightarrow> response \<Rightarrow> bool" where
  "auth_classified e resp \<longleftrightarrow>
     status_code resp \<ge> 400 \<and> \<not> read_error resp \<and>
     \<not> str_contains (py_str ''var arg1='') (resp_text resp) \<and>
     (case env_loads_text e (resp_text resp) of
        Inr error_data \<Rightarrow>
          (case error_member error_data (py_str ''type'') of
             Inr error_type \<Rightarrow>
               type_in AUTH_ERROR_TYPES error_type \<and>
               (if status_code resp \<ge> 500 then
                  str_contains (py_str ''application/json'') (content_type resp) \<and>
                  (case error_member error_data (py_str ''message'') of
                     Inr (JStr m) \<Rightarrow>
                       \<not> str_contains FUZAI m \<and>
                       \<not> str_contains (py_str ''overload'') (lib_lower (env_lib e) m) \<and>
                       lib_print (env_lib e) (take 100 m)
                   | _ \<Rightarrow> False)
                else status_code resp = 401 \<or> status_code resp = 403)
           | _ \<Rightarrow> False)
      | _ \<Rightarrow> False)"

definition auth_note :: "ustr \<Rightarrow> response \<Rightarrow> error_note" where
  "auth_note key resp =
     (if status_code resp \<ge> 500 then KeyInvalid key else AuthFailed key (status_code resp))"

definition after_auth_retry :: "ustr \<Rightarrow> ustr \<Rightarrow> bytes \<Rightarrow> nat \<Rightarrow> run \<Rightarrow> run" where
  "after_auth_retry url key content attempt r =
     (send url key content False attempt False r)
       \<lparr>run_store := (run_store r)\<lparr>nonessential_traffic_disabled := True\<rparr>\<rparr>"

text \<open>
  What a step of the engine that runs in mode \<open>p\<close> does to the list of requests and to the
  retry context: requests are added at the end, all in mode \<open>p\<close> and with the counter as
  it was before the step, the probe body in probe mode except when the full request is sent
  again; the two bodies stay, and in probe mode so does the counter.
\<close>

definition sent_in_mode :: "bool \<Rightarrow> retry_context \<Rightarrow> sending \<Rightarrow> bool" where
  "sent_in_mode p c s \<longleftrightarrow>
     s_probe s = p \<and> s_full s = full_context_attempts c \<and>
     s_body s = (if p \<and> \<not> s_resend s then probe_body c else original_body c)"

definition same_bodies :: "retry_context \<Rightarrow> retry_context \<Rightarrow> bool" where
  "same_bodies c c' \<longleftrightarrow> original_body c' = original_body c \<and> probe_body c' = probe_body c"

definition keeps :: "bool \<Rightarrow> run \<Rightarrow> run \<Rightarrow> bool" where
  "keeps p r r' \<longleftrightarrow>
     run_trace r' = run_trace r \<and> same_bodies (run_ctx r) (run_ctx r') \<and>
     (p \<longrightarrow> full_context_attempts (run_ctx r') = full_context_attempts (run_ctx r))"

text \<open>
  The requests of a handler call, in the order sent. \<open>mode_by_counter\<close>: a first
  attempt is in probe mode exactly when the counter is 2 or more. \<open>stays_probe\<close>: after
  a request in probe mode every request is in probe mode, with the same counter.
  \<open>body_by_mode\<close>: a request carries the probe body in probe mode, the full request
  sent again apart, and the original body otherwise.
\<close>

definition mode_by_counter :: "sending \<Rightarrow> bool" where
  "mode_by_counter s \<longleftrightarrow> (s_attempt s = 1 \<and> \<not> s_resend s \<longrightarrow> s_probe s = (2 \<le> s_full s))"

fun stays_probe :: "sending list \<Rightarrow> bool" where
  "stays_probe [] = True"
| "stays_probe (s # later) =
     ((s_probe s \<longrightarrow> list_all (\<lambda>s'. s_probe s' \<and> s_full s' = s_full s) later) \<and>
      stays_probe later)"

definition body_by_mode :: "retry_context \<Rightarrow> sending \<Rightarrow> bool" where
  "body_by_mode c s \<longleftrightarrow>
     s_body s = (if s_probe s \<and> \<not> s_resend s then probe_body c else original_body c)"

definition probe_absorbing :: "retry_context \<Rightarrow> sending list \<Rightarrow> bool" where
  "probe_absorbing c t \<longleftrightarrow>
     list_all mode_by_counter t \<and> stays_probe t \<and> list_all (body_by_mode c) t"

text \<open>
  The invariant of the loops: the above of the requests sent so far, the bodies of the
  retry context are those of the start, and the counter is 2 or more and has not changed
  since the first request in probe mode.
\<close>

definition probe_inv :: "retry_context \<Rightarrow> run \<Rightarrow> bool" where
  "probe_inv c r \<longleftrightarrow>
     same_bodies c (run_ctx r) \<and> probe_absorbing c (run_trace r) \<and>
     list_all (\<lambda>s. s_probe s \<longrightarrow>
                 s_full s = full_context_attempts (run_ctx r) \<and> 2 \<le> s_full s) (run_trace r)"

text \<open>One attempt in mode \<open>p\<close> with number \<open>a\<close>: the requests \<open>new\<close> are added.\<close>

definition one_attempt :: "bool \<Rightarrow> nat \<Rightarrow> run \<Rightarrow> sending list \<Rightarrow> run \<Rightarrow> bool" where
  "one_attempt p a r new r' \<longleftrightarrow>
     run_trace r' = run_trace r @ new \<and>
     list_all (\<lambda>s. sent_in_mode p (run_ctx r) s \<and> s_attempt s = a) new \<and>
     same_bodies (run_ctx r) (run_ctx r') \<and>
     (p \<longrightarrow> full_context_attempts (run_ctx r') = full_context_attempts (run_ctx r))"

subsection \<open>Examples\<close>

text \<open>
  Two URLs and two keys; the body of scenario S2; error bodies of an overloaded upstream
  and of a rejected key, with \<open>json.loads\<close> on them; and five upstreams, by the number
  of the request: an overload and then success; a transport error, a 401 and then
  success; an overload, a transport error and then success; a 401 twice and then success;
  transport errors only.
\<close>

definition url_a :: ustr where
  "url_a = py_str ''https://a.example''"

definition url_b :: ustr where
  "url_b = py_str ''https://b.example''"

definition key_a :: ustr where
  "key_a = py_str ''sk-a''"

definition key_b :: ustr where
  "key_b = py_str ''sk-b''"

definition overload_text :: ustr where
  \<open>overload_text = py_str ''{"error":{"message":"Overloaded"}}''\<close>

definition auth_text :: ustr where
  \<open>auth_text = py_str ''{"error":{"type":"authentication_error"}}''\<close>

definition loads_text_example :: "ustr \<Rightarrow> error + ustr json" where
  "loads_text_example t =
     (if t = overload_text
      then Inr (JDict [(py_str ''error'',
                          JDict [(py_str ''message'', JStr (py_str ''Overloaded''))])])
      else if t = auth_text
      then Inr (JDict [(py_str ''error'',
                          JDict [(py_str ''type'', JStr (py_str ''authentication_error''))])])
      else Inl JSONDecodeError)"

definition overload_503 :: response where
  "overload_503 =
     \<lparr>status_code = 503, content_type = py_str ''application/json'', read_error = False,
      resp_text = overload_text\<rparr>"

definition auth_401 :: response where
  "auth_401 =
     \<lparr>status_code = 401, content_type = py_str ''application/json'', read_error = False,
      resp_text = auth_text\<rparr>"

definition ok_200 :: response where
  "ok_200 =
     \<lparr>status_code = 200, content_type = py_str ''text/event-stream'', read_error = False,
      resp_text = []\<rparr>"

definition engine_cfg :: config where
  "engine_cfg =
     \<lparr>CANDIDATE_URLS = [url_a, url_b], CANDIDATE_API_KEYS = [key_a, key_b],
      KEY_ID_BY_KEY =
        [(key_a, take 16 (hexdigest (sha256 (py_bytes ''sk-a'')))),
         (key_b, take 16 (hexdigest (sha256 (py_bytes ''sk-b''))))]\<rparr>"

definition engine_env :: "(nat \<Rightarrow> reply) \<Rightarrow> env" where
  "engine_env up =
     \<lparr>env_cfg = engine_cfg, env_replacement = None, env_insert = False,
      env_lib = example_lib, env_loads_text = loads_text_example,
      env_upstream = up, env_now = 1000\<rparr>"


definition error_401_then_ok :: "nat \<Rightarrow> reply" where
  "error_401_then_ok n =
     (if n = 0 then RequestError else if n = 1 then Reply auth_401 else Reply ok_200)"

definition overload_error_then_ok :: "nat \<Rightarrow> reply" where
  "overload_error_then_ok n =
     (if n = 0 then Reply overload_503 else if n = 1 then RequestError else Reply ok_200)"

definition twice_401_then_ok :: "nat \<Rightarrow> reply" where
  "twice_401_then_ok n = (if n < 2 then Reply auth_401 else Reply ok_200)"

definition always_error :: "nat \<Rightarrow> reply" where
  "always_error n = RequestError"

definition probe_S2 :: bytes where
  \<open>probe_S2 =
     py_bytes ''{"model":"m","max_tokens":1,"messages":[{"role":"user","content":"ping"}]}''\<close>

definition ctx_S2 :: retry_context where
  "ctx_S2 =
     \<lparr>original_body = body_S2, user_model = JStr (py_str ''m''), probe_body = probe_S2,
      full_context_attempts = 0, probe_attempts = 0, probe_succeeded_but_full_failed = False,
      last_working_url = None, last_working_key = None\<rparr>"

definition request_S2 :: request where
  "request_S2 = \<lparr>req_path = py_str ''v1/messages'', req_body = body_S2\<rparr>"

definition fresh_store :: store where
  "fresh_store =
     \<lparr>key_usage_count = [(key_a, 0), (key_b, 0)], key_cooldown_until = [],
      url_cooldown_until = [], pending_cooldown_keys = [],
      nonessential_traffic_disabled = False, written = []\<rparr>"


text \<open>The rest of the file states and proves properties of the definitions above.\<close>

section \<open>Properties of the challenge solver\<close>

lemma mask_text_value: "mask_text = py_str ''3000176000856006061501533003690027800375''"
  by (simp add: mask_text_def mask_b64_def b64decode_def py_str_def List.map_filter_simps b64_value_def)

lemma fold_update_upt:
  "n \<le> length out \<Longrightarrow>
   fold (\<lambda>j out. if P j then out[j := f j] else out) [0..<n] out =
   map (\<lambda>j. if j < n \<and> P j then f j else out ! j) [0..<length out]"
proof (induction n)
  case 0
  show ?case by (simp add: map_nth)
next
  case (Suc n)
  then have n: "n < length out" by simp
  have "fold (\<lambda>j out. if P j then out[j := f j] else out) [0..<Suc n] out =
        (\<lambda>out. if P n then out[n := f n] else out)
          (map (\<lambda>j. if j < n \<and> P j then f j else out ! j) [0..<length out])"
    using Suc by simp
  also have "\<dots> = map (\<lambda>j. if j < Suc n \<and> P j then f j else out ! j) [0..<length out]"
    using n by (auto intro!: nth_equalityI simp: nth_list_update less_Suc_eq)
  finally show ?case .
qed

lemma length_posList: "length posList = 40"
  by (simp add: posList_def)

lemma posList_range: "list_all (\<lambda>p. 0 < p \<and> p \<le> 40) posList"
  by (simp add: posList_def)

lemma posList_nth_range: "j < 40 \<Longrightarrow> 0 < posList ! j \<and> posList ! j \<le> 40"
  using posList_range by (simp add: list_all_length length_posList)

lemma place_eq:
  "length out = 40 \<Longrightarrow>
   place arg1 i out = map (\<lambda>j. if posList ! j = i + 1 then [arg1 ! i] else out ! j) [0..<40]"
  unfolding place_def
  by (subst fold_update_upt) (auto simp: length_posList)

lemma outer_loop_eq:
  "fold (place arg1) [0..<n] (replicate 40 []) =
   map (\<lambda>j. if posList ! j \<le> n then [arg1 ! (posList ! j - 1)] else []) [0..<40]"
proof (induction n)
  case 0
  show ?case
    using posList_nth_range by (auto intro!: nth_equalityI)
next
  case (Suc n)
  show ?case
    using posList_nth_range
    by (auto simp add: Suc place_eq le_Suc_eq)
qed

lemma arg2_of_spec: "arg2_of arg1 = spec_arg2 arg1"
  by (simp add: arg2_of_def spec_arg2_def length_posList outer_loop_eq)

lemma hex_value_bound: "hex_value c = Some d \<Longrightarrow> d < 16"
  by (auto simp: hex_value_def split: if_splits)

lemma is_upper_hex_value: "is_upper_hex c \<Longrightarrow> \<exists>d. hex_value c = Some d"
  by (auto simp: is_upper_hex_def hex_value_def)

lemma int16_acc_eq:
  "list_all is_hex s \<Longrightarrow>
   int16_acc acc s = Inr (foldl (\<lambda>a c. 16 * a + (case hex_value c of Some d \<Rightarrow> d | None \<Rightarrow> 0)) acc s)"
  by (induction s arbitrary: acc) (auto simp: is_hex_def mult.commute)

lemma int16_eq: "s \<noteq> [] \<Longrightarrow> list_all is_hex s \<Longrightarrow> int16 s = Inr (hex_number s)"
  by (simp add: int16_def hex_number_def int16_acc_eq)

lemma hex_number_bound: "list_all is_hex s \<Longrightarrow> length s \<le> 2 \<Longrightarrow> hex_number s < 256"
proof -
  assume h: "list_all is_hex s" and l: "length s \<le> 2"
  have one: "is_hex c \<Longrightarrow> (case hex_value c of Some d \<Rightarrow> d | None \<Rightarrow> 0) < 16" for c
    by (auto simp: is_hex_def dest: hex_value_bound)
  show ?thesis
  proof (cases s)
    case Nil
    then show ?thesis by (simp add: hex_number_def)
  next
    case (Cons a t)
    show ?thesis
    proof (cases t)
      case Nil
      with Cons h one [of a] show ?thesis by (simp add: hex_number_def)
    next
      case (Cons b u)
      with \<open>s = a # t\<close> l have "u = []" by simp
      with Cons \<open>s = a # t\<close> h one [of a] one [of b] show ?thesis
        by (simp add: hex_number_def)
    qed
  qed
qed

lemma xor_bound: "(a::nat) < 256 \<Longrightarrow> b < 256 \<Longrightarrow> a XOR b < 256"
proof -
  assume "a < 256" "b < 256"
  then have a: "take_bit 8 a = a" and b: "take_bit 8 b = b"
    by (simp_all add: take_bit_nat_eq_self_iff)
  have "take_bit 8 (a XOR b) = a XOR b"
    unfolding take_bit_xor a b ..
  then have "a XOR b < 2 ^ 8"
    by (simp only: take_bit_nat_eq_self_iff)
  then show ?thesis by simp
qed

lemma hex_digits_two:
  assumes "n < 256"
  shows "(let x = hex_digits n in if length x = 1 then 48 # x else x) = two_hex n"
proof (cases "n < 16")
  case True
  then show ?thesis
    by (simp add: hex_digits.simps [of n] two_hex_def hex_digit_def)
next
  case False
  with assms have "n div 16 < 16" by simp
  with False show ?thesis
    by (simp add: hex_digits.simps [of n] hex_digits.simps [of "n div 16"] two_hex_def)
qed


lemma is_hex_slice: "list_all is_hex xs \<Longrightarrow> list_all is_hex (take n (drop i xs))"
  by (auto simp: list_all_iff dest!: in_set_takeD in_set_dropD)

lemma xor_round_eq:
  assumes "list_all is_hex arg2" "list_all is_hex msk" "i < length arg2" "i < length msk"
  shows "xor_round arg2 msk i =
         Inr (two_hex (hex_number (take 2 (drop i arg2)) XOR hex_number (take 2 (drop i msk))))"
proof -
  let ?a = "take 2 (drop i arg2)" and ?m = "take 2 (drop i msk)"
  have a: "int16 ?a = Inr (hex_number ?a)" and m: "int16 ?m = Inr (hex_number ?m)"
    using assms by (simp_all add: int16_eq is_hex_slice)
  have "hex_number ?a < 256" "hex_number ?m < 256"
    using assms by (simp_all add: hex_number_bound is_hex_slice)
  then have "hex_number ?a XOR hex_number ?m < 256"
    by (rule xor_bound)
  then show ?thesis
    using hex_digits_two [of "hex_number ?a XOR hex_number ?m"]
    by (simp add: xor_round_def a m Let_def)
qed

lemma xor_loop_eq:
  assumes "list_all is_hex arg2" "list_all is_hex msk"
  shows "list_all (\<lambda>i. i < length arg2 \<and> i < length msk) idxs \<Longrightarrow>
         xor_loop arg2 msk idxs arg3 =
         Inr (arg3 @ concat (map (\<lambda>i. two_hex (hex_number (take 2 (drop i arg2)) XOR
                                              hex_number (take 2 (drop i msk)))) idxs))"
  by (induction idxs arbitrary: arg3) (simp_all add: xor_round_eq assms)

lemma range2_bound: "list_all (\<lambda>i. i < n) (range2 n)"
  by (auto simp: range2_def list_all_iff)

lemma length_arg1_open: "length arg1_open = 10"
  by (simp add: arg1_open_def py_str_def)

lemma match_arg1_iff: "match_arg1 t = Some hex \<longleftrightarrow> arg1_at t hex"
proof
  assume m: "match_arg1 t = Some hex"
  let ?d = "drop (length arg1_open) t"
  from m have p: "take (length arg1_open) t = arg1_open"
    and h: "hex = takeWhile is_upper_hex ?d" "hex \<noteq> []"
    and r: "take 1 (dropWhile is_upper_hex ?d) = [39]"
    by (auto simp: match_arg1_def Let_def split: if_splits)
  from r obtain post where post: "dropWhile is_upper_hex ?d = 39 # post"
    by (cases "dropWhile is_upper_hex ?d") auto
  have "t = take (length arg1_open) t @ takeWhile is_upper_hex ?d @ dropWhile is_upper_hex ?d"
    by simp
  then have "t = arg1_open @ hex @ [39] @ post"
    using p h post by simp
  moreover have "list_all is_upper_hex hex"
    using h by (auto simp: list_all_iff dest: set_takeWhileD)
  ultimately show "arg1_at t hex"
    using h by (auto simp: arg1_at_def)
next
  assume "arg1_at t hex"
  then obtain post where t: "t = arg1_open @ hex @ [39] @ post"
    and h: "hex \<noteq> []" "list_all is_upper_hex hex"
    by (auto simp: arg1_at_def)
  have q: "\<not> is_upper_hex 39" by (simp add: is_upper_hex_def)
  have "takeWhile is_upper_hex (hex @ 39 # post) = hex"
    using h q by (simp add: takeWhile_append2 list_all_iff)
  moreover have "dropWhile is_upper_hex (hex @ 39 # post) = 39 # post"
    using h q by (simp add: dropWhile_append2 list_all_iff)
  ultimately show "match_arg1 t = Some hex"
    using h by (simp add: match_arg1_def t)
qed

lemma arg1_at_Nil: "\<not> arg1_at [] hex"
  by (simp add: arg1_at_def arg1_open_def py_str_def)

lemma re_search_None_iff: "re_search_arg1 html = None \<longleftrightarrow> \<not> has_arg1 html"
proof (induction html)
  case Nil
  show ?case by (simp add: has_arg1_def arg1_at_Nil)
next
  case (Cons c cs)
  have "has_arg1 (c # cs) \<longleftrightarrow> (\<exists>hex. arg1_at (c # cs) hex) \<or> has_arg1 cs"
    unfolding has_arg1_def
  proof (intro iffI; elim exE disjE)
    fix k hex assume "arg1_at (drop k (c # cs)) hex"
    then show "(\<exists>hex. arg1_at (c # cs) hex) \<or> (\<exists>k hex. arg1_at (drop k cs) hex)"
      by (cases k) auto
  next
    fix hex assume "arg1_at (c # cs) hex"
    then have "arg1_at (drop 0 (c # cs)) hex" by simp
    then show "\<exists>k hex. arg1_at (drop k (c # cs)) hex" by blast
  next
    fix k hex assume "arg1_at (drop k cs) hex"
    then have "arg1_at (drop (Suc k) (c # cs)) hex" by simp
    then show "\<exists>k hex. arg1_at (drop k (c # cs)) hex" by blast
  qed
  moreover have "match_arg1 (c # cs) = None \<longleftrightarrow> \<not> (\<exists>hex. arg1_at (c # cs) hex)"
    using match_arg1_iff [of "c # cs"] by (cases "match_arg1 (c # cs)") auto
  ultimately show ?case
    using Cons by (auto split: option.splits)
qed

lemma re_search_first: "re_search_arg1 html = Some hex \<Longrightarrow> first_arg1 html hex"
proof (induction html)
  case Nil
  then show ?case by simp
next
  case (Cons c cs)
  show ?case
  proof (cases "match_arg1 (c # cs)")
    case (Some h)
    with Cons.prems have "arg1_at (drop 0 (c # cs)) hex"
      by (simp add: match_arg1_iff [symmetric])
    then show ?thesis
      unfolding first_arg1_def by (intro exI [of _ 0]) simp
  next
    case None
    with Cons have "first_arg1 cs hex" by simp
    then obtain k where k: "arg1_at (drop k cs) hex"
      and least: "\<And>k' hex'. arg1_at (drop k' cs) hex' \<Longrightarrow> k \<le> k'"
      by (auto simp: first_arg1_def)
    have "Suc k \<le> k'" if "arg1_at (drop k' (c # cs)) hex'" for k' hex'
    proof (cases k')
      case 0
      with that None show ?thesis by (simp add: match_arg1_iff [symmetric])
    next
      case (Suc j)
      with that least [of j hex'] show ?thesis by simp
    qed
    with k show ?thesis
      unfolding first_arg1_def by (intro exI [of _ "Suc k"]) simp
  qed
qed

lemma is_upper_hex_is_hex: "is_upper_hex c \<Longrightarrow> is_hex c"
  by (auto simp: is_upper_hex_def is_hex_def hex_value_def)

lemma spec_arg2_hex:
  assumes "list_all is_upper_hex arg1"
  shows "list_all is_hex (spec_arg2 arg1)"
proof -
  have "is_hex (arg1 ! (posList ! j - 1))" if "j < 40" "posList ! j \<le> length arg1" for j
    using that assms posList_nth_range [of j]
    by (auto simp: list_all_length intro!: is_upper_hex_is_hex)
  then show ?thesis
    by (auto simp: spec_arg2_def list_all_iff length_posList)
qed

lemma mask_text_is_hex: "list_all is_hex mask_text"
  by (simp add: mask_text_value py_str_def is_hex_def hex_value_def)

lemma length_mask_text: "length mask_text = 40"
  by (simp add: mask_text_value py_str_def)

lemma length_spec_arg2: "40 \<le> length arg1 \<Longrightarrow> length (spec_arg2 arg1) = 40"
proof -
  assume l: "40 \<le> length arg1"
  have eq: "map (\<lambda>j. if posList ! j \<le> length arg1 then [arg1 ! (posList ! j - 1)] else []) [0..<40] =
        map (\<lambda>j. [arg1 ! (posList ! j - 1)]) [0..<40]"
  proof (intro map_cong refl)
    fix j assume "j \<in> set [0..<40]"
    then have "posList ! j \<le> 40" using posList_nth_range [of j] by simp
    with l show "(if posList ! j \<le> length arg1 then [arg1 ! (posList ! j - 1)] else []) =
                 [arg1 ! (posList ! j - 1)]" by simp
  qed
  show ?thesis
    unfolding spec_arg2_def length_posList eq by (simp add: length_concat comp_def sum_list_triv)
qed

lemma two_hex_lower: "n < 256 \<Longrightarrow> list_all is_lower_hex (two_hex n)"
  by (auto simp: two_hex_def hex_digit_def is_lower_hex_def div_less_iff_less_mult)

lemma length_spec_token:
  "length (spec_token arg1) = 2 * ((min (length (spec_arg2 arg1)) (length mask_text) + 1) div 2)"
  by (simp add: spec_token_def Let_def length_concat comp_def two_hex_def sum_list_triv)

lemma spec_token_lower:
  assumes "list_all is_upper_hex arg1"
  shows "list_all is_lower_hex (spec_token arg1)"
proof -
  have "hex_number (take 2 (drop i (spec_arg2 arg1))) XOR hex_number (take 2 (drop i mask_text)) < 256" for i
    using assms by (intro xor_bound hex_number_bound is_hex_slice spec_arg2_hex mask_text_is_hex) simp_all
  then show ?thesis
    using two_hex_lower by (auto simp: spec_token_def Let_def list_all_iff)
qed

lemma solve_of_search:
  assumes "re_search_arg1 html = Some arg1"
  shows "solve_acw_challenge html = Inr (Some (spec_token arg1))"
proof -
  from re_search_first [OF assms] have up: "list_all is_upper_hex arg1"
    by (auto simp: first_arg1_def arg1_at_def)
  let ?a = "spec_arg2 arg1"
  let ?n = "min (length ?a) (length mask_text)"
  have "list_all (\<lambda>i. i < length ?a \<and> i < length mask_text) (range2 ?n)"
    unfolding list_all_iff
  proof
    fix i assume "i \<in> set (range2 ?n)"
    then have "i < ?n" using range2_bound [of ?n] by (simp only: list_all_iff)
    then show "i < length ?a \<and> i < length mask_text" by (simp only: min_less_iff_conj)
  qed
  then have "xor_loop ?a mask_text (range2 ?n) [] =
      Inr ([] @ concat (map (\<lambda>i. two_hex (hex_number (take 2 (drop i ?a)) XOR
                                           hex_number (take 2 (drop i mask_text)))) (range2 ?n)))"
    by (rule xor_loop_eq [OF spec_arg2_hex [OF up] mask_text_is_hex])
  also have "\<dots> = Inr (spec_token arg1)"
    unfolding spec_token_def Let_def range2_def map_map comp_def by simp
  finally show ?thesis
    by (simp add: solve_acw_challenge_def assms arg2_of_spec Let_def)
qed

text \<open>
  Claim C1. For every HTML text with a match of \<open>var arg1='<uppercase hex>'\<close> the
  solver returns a token, and the token is the one computed from the group of the leftmost
  match with the fixed 40-entry table \<open>posList\<close> and the fixed mask: the characters
  are permuted by the table and each pair of hexadecimal digits, XORed with the pair of the
  mask, is written as two lowercase hexadecimal digits. For a group of 40 characters the
  token has 40 characters. For a text without a match the solver returns \<open>None\<close>.
  The solver raises in neither case.
\<close>

theorem solve_acw_challenge_token:
  "(has_arg1 html \<longrightarrow>
      (\<exists>arg1. first_arg1 html arg1 \<and>
         solve_acw_challenge html = Inr (Some (spec_token arg1)) \<and>
         list_all is_lower_hex (spec_token arg1) \<and>
         (length arg1 = 40 \<longrightarrow> length (spec_token arg1) = 40))) \<and>
   (\<not> has_arg1 html \<longrightarrow> solve_acw_challenge html = Inr None)"
proof (intro conjI impI)
  assume "has_arg1 html"
  then obtain arg1 where s: "re_search_arg1 html = Some arg1"
    using re_search_None_iff [of html] by (cases "re_search_arg1 html") auto
  have f: "first_arg1 html arg1"
    using s by (rule re_search_first)
  then have up: "list_all is_upper_hex arg1"
    by (auto simp: first_arg1_def arg1_at_def)
  have "length (spec_token arg1) = 40" if "length arg1 = 40"
    using that by (simp add: length_spec_token length_spec_arg2 length_mask_text)
  with f solve_of_search [OF s] spec_token_lower [OF up]
  show "\<exists>arg1. first_arg1 html arg1 \<and>
         solve_acw_challenge html = Inr (Some (spec_token arg1)) \<and>
         list_all is_lower_hex (spec_token arg1) \<and>
         (length arg1 = 40 \<longrightarrow> length (spec_token arg1) = 40)"
    by (intro exI [of _ arg1] conjI impI)
next
  assume "\<not> has_arg1 html"
  then have "re_search_arg1 html = None"
    by (simp add: re_search_None_iff)
  then show "solve_acw_challenge html = Inr None"
    by (simp add: solve_acw_challenge_def)
qed

text \<open>
  The theorem at the vector of the specification (scenario S1), whose token is computed
  here, and at a page without the challenge.
\<close>

theorem solve_acw_challenge_token_witness:
  "has_arg1 (py_str ''<html>var arg1='3000176000856006061501533003690027800375';</html>'') \<and>
   solve_acw_challenge (py_str ''<html>var arg1='3000176000856006061501533003690027800375';</html>'') =
     Inr (Some (py_str ''3863315300953013306d77033003606026837325'')) \<and>
   list_all is_lower_hex (py_str ''3863315300953013306d77033003606026837325'') \<and>
   \<not> has_arg1 (py_str ''<html>var arg2='30';</html>'') \<and>
   solve_acw_challenge (py_str ''<html>var arg2='30';</html>'') = Inr None"
proof -
  let ?h = "py_str ''<html>var arg1='3000176000856006061501533003690027800375';</html>''"
  let ?a = "py_str ''3000176000856006061501533003690027800375''"
  let ?t = "py_str ''3863315300953013306d77033003606026837325''"
  let ?g = "py_str ''<html>var arg2='30';</html>''"
  have "match_arg1 (drop 6 ?h) = Some ?a" by code_simp
  then have h: "has_arg1 ?h"
    unfolding has_arg1_def match_arg1_iff by blast
  have v: "solve_acw_challenge ?h = Inr (Some ?t)"
    by code_simp
  have "re_search_arg1 ?g = None" by code_simp
  then have g: "\<not> has_arg1 ?g" by (simp add: re_search_None_iff [symmetric])
  from solve_acw_challenge_token [of ?h] h obtain arg1 where
    a: "solve_acw_challenge ?h = Inr (Some (spec_token arg1))"
      "list_all is_lower_hex (spec_token arg1)"
    by blast
  from a(1) v have "spec_token arg1 = ?t" by simp
  with a(2) have t: "list_all is_lower_hex ?t" by simp
  from solve_acw_challenge_token [of ?g] g have n: "solve_acw_challenge ?g = Inr None" by blast
  from h v t g n show ?thesis by (intro conjI)
qed
section \<open>Properties of the request body rewriter\<close>

lemma replace_text_only:
  assumes "map_of d SYSTEM = Some (JList (JDict first_element # rest))"
    and "map_of first_element TEXT = Some original_text"
  shows "\<exists>d'. replace_text replacement d first_element rest = JDict d' \<and>
              only_text_replaced replacement d d'"
proof -
  let ?fe = "AList.update TEXT (JStr replacement) first_element"
  let ?d = "AList.update SYSTEM (JList (JDict ?fe # rest)) d"
  have k1: "SYSTEM \<in> fst ` set d" and k2: "TEXT \<in> fst ` set first_element"
    using assms by (auto dest!: map_of_SomeD intro: rev_image_eqI)
  have "map fst ?d = map fst d" "map fst ?fe = map fst first_element"
    using k1 k2 by (simp_all add: update_keys)
  moreover have "map_of ?d k = map_of d k" if "k \<noteq> SYSTEM" for k
    using that by (simp add: update_conv')
  moreover have "map_of ?fe k = map_of first_element k" if "k \<noteq> TEXT" for k
    using that by (simp add: update_conv')
  moreover have "map_of ?d SYSTEM = Some (JList (JDict ?fe # rest))"
    "map_of ?fe TEXT = Some (JStr replacement)"
    by (simp_all add: update_conv')
  ultimately have "only_text_replaced replacement d ?d"
    unfolding only_text_replaced_def using assms(1) by blast
  then show ?thesis
    by (auto simp: replace_text_def)
qed

lemma insert_element_front:
  assumes "map_of d SYSTEM = Some (JList system)"
  shows "\<exists>d'. insert_element replacement d system = JDict d' \<and>
              element_inserted replacement d d'"
proof -
  let ?d = "AList.update SYSTEM (JList (new_element replacement # system)) d"
  have "SYSTEM \<in> fst ` set d"
    using assms by (auto dest!: map_of_SomeD intro: rev_image_eqI)
  then have "map fst ?d = map fst d"
    by (simp add: update_keys)
  moreover have "map_of ?d k = map_of d k" if "k \<noteq> SYSTEM" for k
    using that by (simp add: update_conv')
  moreover have "map_of ?d SYSTEM = Some (JList (new_element replacement # system))"
    by (simp add: update_conv')
  ultimately have "element_inserted replacement d ?d"
    unfolding element_inserted_def using assms by blast
  then show ?thesis
    by (auto simp: insert_element_def)
qed

lemma process_data_untouched:
  "\<not> has_system_text d \<Longrightarrow> process_data lib replacement insert_mode body (JDict d) = Inr body"
  by (auto simp: process_data_def has_system_text_def split: option.splits json.splits list.splits)

lemma process_data_text:
  assumes "map_of d SYSTEM = Some (JList (JDict first_element # rest))"
    and "map_of first_element TEXT = Some original_text"
  shows "process_data lib replacement insert_mode body (JDict d) =
         rewrite_system lib replacement insert_mode body d first_element rest original_text"
  using assms by (simp add: process_data_def)

text \<open>
  Claim C2, as amended. Without a replacement, with a body that is not JSON (a
  UnicodeDecodeError or a JSONDecodeError), and with a JSON object in which \<open>system\<close> is
  missing, not a list, empty, or whose first element is not a dict with a \<open>text\<close> key,
  the original bytes are returned. With a replacement, insert mode off, and a JSON object
  whose \<open>system\<close> is a non-empty list whose first element is a dict with a \<open>text\<close> key
  holding a string, the log lines of that string and of the replacement being printed, the
  document is changed at \<open>system[0].text\<close> only, which becomes the replacement, and the
  result is its compact serialization with non-ASCII characters kept (\<open>dumps False\<close>)
  encoded as UTF-8, or the original bytes when it cannot be encoded (a lone surrogate in
  the document).
\<close>

theorem process_request_body_replace:
  "process_request_body lib None insert_mode body = Inr body \<and>
   (lib_loads lib body = Inl UnicodeDecodeError \<or> lib_loads lib body = Inl JSONDecodeError \<longrightarrow>
      process_request_body lib (Some replacement) insert_mode body = Inr body) \<and>
   (\<forall>d. lib_loads lib body = Inr (JDict d) \<and> \<not> has_system_text d \<longrightarrow>
      process_request_body lib (Some replacement) insert_mode body = Inr body) \<and>
   (\<forall>d first_element rest t.
      lib_loads lib body = Inr (JDict d) \<and>
      map_of d SYSTEM = Some (JList (JDict first_element # rest)) \<and>
      map_of first_element TEXT = Some (JStr t) \<and>
      lib_print lib (preview t) \<and> lib_print lib (preview replacement) \<longrightarrow>
      (\<exists>d'. only_text_replaced replacement d d' \<and>
         process_request_body lib (Some replacement) False body =
           Inr (case utf8_encode (dumps False (JDict d')) of
                  Some modified_body \<Rightarrow> modified_body
                | None \<Rightarrow> body)))"
proof (intro conjI allI impI)
  show "process_request_body lib None insert_mode body = Inr body"
    by (simp add: process_request_body_def)
next
  assume "lib_loads lib body = Inl UnicodeDecodeError \<or> lib_loads lib body = Inl JSONDecodeError"
  then show "process_request_body lib (Some replacement) insert_mode body = Inr body"
    by (auto simp: process_request_body_def)
next
  fix d assume "lib_loads lib body = Inr (JDict d) \<and> \<not> has_system_text d"
  then show "process_request_body lib (Some replacement) insert_mode body = Inr body"
    by (simp add: process_request_body_def process_data_untouched)
next
  fix d first_element rest t
  assume a: "lib_loads lib body = Inr (JDict d) \<and>
      map_of d SYSTEM = Some (JList (JDict first_element # rest)) \<and>
      map_of first_element TEXT = Some (JStr t) \<and>
      lib_print lib (preview t) \<and> lib_print lib (preview replacement)"
  then obtain d' where d': "replace_text replacement d first_element rest = JDict d'"
    "only_text_replaced replacement d d'"
    using replace_text_only by blast
  from a have "process_data lib replacement False body (JDict d) =
      rewrite_system lib replacement False body d first_element rest (JStr t)"
    by (simp add: process_data_text)
  with a have "process_request_body lib (Some replacement) False body =
        Inr (dump_body body (JDict d'))"
    by (simp add: process_request_body_def rewrite_system_def log_preview_def log_line_def d')
  with d'(2) show "\<exists>d'. only_text_replaced replacement d d' \<and>
         process_request_body lib (Some replacement) False body =
           Inr (case utf8_encode (dumps False (JDict d')) of
                  Some modified_body \<Rightarrow> modified_body
                | None \<Rightarrow> body)"
    unfolding dump_body_def by blast
qed

lemmas body_eval =
  process_request_body_def process_data_def rewrite_system_def log_preview_def log_line_def
  preview_def dump_body_def replace_text_def insert_element_def new_element_def
  example_lib_def example_loads_def utf8_print_def utf8_print_repr_def
  body_S2_def data_S2_def body_X_def data_X_def body_surrogate_def data_surrogate_def
  body_number_def data_number_def body_X_surrogate_def data_X_surrogate_def
  py_bytes_def py_str_def SYSTEM_def TEXT_def
  CLAUDE_CODE_KEYWORD_def ascii_lower_def dumps_str_def escape_char_def utf8_char_def
  AList.update.simps

text \<open>
  Scenario S2: the theorem at the body of the specification, and the bytes that come out.
\<close>

theorem process_request_body_replace_witness:
  \<open>lib_loads example_lib body_S2 = Inr data_S2 \<and>
   lib_print example_lib (preview (py_str ''You are Claude Code.'')) \<and>
   lib_print example_lib (preview (py_str ''X'')) \<and>
   (\<exists>d d'. data_S2 = JDict d \<and> only_text_replaced (py_str ''X'') d d' \<and>
      process_request_body example_lib (Some (py_str ''X'')) False body_S2 =
        Inr (case utf8_encode (dumps False (JDict d')) of
               Some modified_body \<Rightarrow> modified_body
             | None \<Rightarrow> body_S2)) \<and>
   process_request_body example_lib (Some (py_str ''X'')) False body_S2 =
     Inr (py_bytes ''{"system":[{"type":"text","text":"X"}],"model":"m"}'') \<and>
   process_request_body example_lib None False body_S2 = Inr body_S2\<close>
proof -
  let ?fe = "[(py_str ''type'', JStr (py_str ''text'')),
              (py_str ''text'', JStr (py_str ''You are Claude Code.''))]"
  let ?d = "[(py_str ''system'', JList [JDict ?fe]), (py_str ''model'', JStr (py_str ''m''))]"
  have l: "lib_loads example_lib body_S2 = Inr data_S2"
    by (simp add: example_lib_def example_loads_def)
  have d: "data_S2 = JDict ?d"
    by (simp add: data_S2_def)
  have s: "map_of ?d SYSTEM = Some (JList (JDict ?fe # []))"
    and t: "map_of ?fe TEXT = Some (JStr (py_str ''You are Claude Code.''))"
    by (simp_all add: SYSTEM_def TEXT_def py_str_def)
  have p1: "lib_print example_lib (preview (py_str ''You are Claude Code.''))"
    and p2: "lib_print example_lib (preview (py_str ''X''))"
    by (simp_all add: example_lib_def utf8_print_def preview_def py_str_def utf8_char_def)
  note inst = process_request_body_replace
    [of example_lib False body_S2 "py_str ''X''"]
  have l': "lib_loads example_lib body_S2 = Inr (JDict ?d)"
    using l d by simp
  note r = inst [THEN conjunct2, THEN conjunct2, THEN conjunct2, rule_format,
      of ?d ?fe "[]" "py_str ''You are Claude Code.''"]
  from r [OF conjI [OF l' conjI [OF s conjI [OF t conjI [OF p1 p2]]]]] obtain d' where
    "only_text_replaced (py_str ''X'') ?d d'"
    "process_request_body example_lib (Some (py_str ''X'')) False body_S2 =
       Inr (case utf8_encode (dumps False (JDict d')) of
              Some modified_body \<Rightarrow> modified_body
            | None \<Rightarrow> body_S2)"
    by blast
  with d have e: "\<exists>d d'. data_S2 = JDict d \<and> only_text_replaced (py_str ''X'') d d' \<and>
      process_request_body example_lib (Some (py_str ''X'')) False body_S2 =
        Inr (case utf8_encode (dumps False (JDict d')) of
               Some modified_body \<Rightarrow> modified_body
             | None \<Rightarrow> body_S2)"
    by blast
  have v: \<open>process_request_body example_lib (Some (py_str ''X'')) False body_S2 =
     Inr (py_bytes ''{"system":[{"type":"text","text":"X"}],"model":"m"}'')\<close>
    by (simp add: body_eval)
  from inst [THEN conjunct1]
  have n: "process_request_body example_lib None False body_S2 = Inr body_S2" .
  from l p1 p2 e v n show ?thesis by (intro conjI)
qed

text \<open>
  The claim as it was stated fails where the rewritten document cannot be encoded: the
  body below decodes to an object whose \<open>system[0]\<close> has the text \<open>a\<close> and whose field
  \<open>x\<close> is a lone surrogate; with the replacement \<open>X\<close> and insert mode off the original
  bytes come back, with the text \<open>a\<close> still in them.
\<close>

theorem process_request_body_replace_counterexample:
  "lib_loads example_lib body_surrogate = Inr data_surrogate \<and>
   data_surrogate =
     JDict [(SYSTEM, JList [JDict [(TEXT, JStr (py_str ''a''))]]), (py_str ''x'', JStr [55296])] \<and>
   process_request_body example_lib (Some (py_str ''X'')) False body_surrogate =
     Inr body_surrogate"
  by (simp add: body_eval)

text \<open>
  The claim also fails, by a raise rather than by a guard, where \<open>text\<close> is not a string
  (\<open>len\<close> of a number is a TypeError), where the log line of the text cannot be printed
  (a lone surrogate in it, on a UTF-8 stream), where the body is JSON but not an object,
  and where \<open>json.loads\<close> raises what line 581 does not catch: nothing catches these.
\<close>

lemma process_request_body_text_number:
  "lib_loads example_lib body_number = Inr data_number \<and>
   data_number = JDict [(SYSTEM, JList [JDict [(TEXT, JInt 5)]])] \<and>
   process_request_body example_lib (Some (py_str ''X'')) False body_number =
     Inl TypeError"
  by (simp add: body_eval)

lemma process_request_body_text_unprintable:
  assumes "lib_loads lib body = Inr (JDict d)"
    and "map_of d SYSTEM = Some (JList (JDict first_element # rest))"
    and "map_of first_element TEXT = Some (JStr t)"
    and "\<not> lib_print lib (preview t)"
  shows "process_request_body lib (Some replacement) insert_mode body = Inl UnicodeEncodeError"
  using assms
  by (simp add: process_request_body_def process_data_text rewrite_system_def log_preview_def
      log_line_def)

lemma surrogate_unprintable: "\<not> lib_print example_lib (preview [55296])"
  by (simp add: example_lib_def utf8_print_def preview_def utf8_char_def)

lemma process_data_not_dict:
  "process_data lib replacement insert_mode body (JInt 5) = Inl TypeError"
  by (simp add: process_data_def)

lemma process_request_body_loads_raises:
  assumes "lib_loads lib body = Inl e" and "e \<noteq> JSONDecodeError" and "e \<noteq> UnicodeDecodeError"
  shows "process_request_body lib (Some replacement) insert_mode body = Inl e"
  using assms by (simp add: process_request_body_def)

text \<open>
  Claim C6, as amended. With insert mode on, a replacement configured whose log line is
  printed, and a body whose \<open>system[0].text\<close> is a string equal to the replacement: if
  the replacement contains the keyword \<open>Claude Code\<close> (both lowered), the document is
  left as it is, nothing is inserted and the list keeps its length, and the result is the
  compact serialization of the same document, or the body as received when the document
  cannot be encoded; if the replacement does not contain the keyword, the result is the
  compact serialization of the document with a new element with the replacement at index
  0 of the list, which is one longer, and nothing else changed, or the body as received
  when that document cannot be encoded.
\<close>

theorem process_request_body_insert_same_text:
  "\<forall>d first_element rest.
     lib_loads lib body = Inr (JDict d) \<and>
     map_of d SYSTEM = Some (JList (JDict first_element # rest)) \<and>
     map_of first_element TEXT = Some (JStr replacement) \<and>
     lib_print lib (preview replacement) \<longrightarrow>
     (if str_contains (lib_lower lib CLAUDE_CODE_KEYWORD) (lib_lower lib replacement)
      then process_request_body lib (Some replacement) True body =
             Inr (case utf8_encode (dumps False (JDict d)) of
                    Some modified_body \<Rightarrow> modified_body
                  | None \<Rightarrow> body)
      else (\<exists>d'. element_inserted replacement d d' \<and>
                 map_of d' SYSTEM =
                   Some (JList (new_element replacement # JDict first_element # rest)) \<and>
                 process_request_body lib (Some replacement) True body =
                   Inr (case utf8_encode (dumps False (JDict d')) of
                          Some modified_body \<Rightarrow> modified_body
                        | None \<Rightarrow> body)))"
proof (intro allI impI)
  fix d first_element rest
  assume a: "lib_loads lib body = Inr (JDict d) \<and>
     map_of d SYSTEM = Some (JList (JDict first_element # rest)) \<and>
     map_of first_element TEXT = Some (JStr replacement) \<and>
     lib_print lib (preview replacement)"
  let ?kw = "str_contains (lib_lower lib CLAUDE_CODE_KEYWORD) (lib_lower lib replacement)"
  from a have "process_data lib replacement True body (JDict d) =
      rewrite_system lib replacement True body d first_element rest (JStr replacement)"
    by (simp add: process_data_text)
  with a have p: "process_request_body lib (Some replacement) True body =
        (if ?kw
         then Inr (dump_body body (replace_text replacement d first_element rest))
         else Inr (dump_body body (insert_element replacement d (JDict first_element # rest))))"
    by (simp add: process_request_body_def rewrite_system_def log_preview_def log_line_def)
  have "AList.update TEXT (JStr replacement) first_element = first_element"
    using a by (simp add: update_triv)
  then have same: "replace_text replacement d first_element rest = JDict d"
    using a by (simp add: replace_text_def update_triv)
  from a obtain d' where ins: "insert_element replacement d (JDict first_element # rest) = JDict d'"
    "element_inserted replacement d d'"
    using insert_element_front by blast
  then have sys: "map_of d' SYSTEM =
      Some (JList (new_element replacement # JDict first_element # rest))"
    by (auto simp: insert_element_def update_conv')
  show "if ?kw
      then process_request_body lib (Some replacement) True body =
             Inr (case utf8_encode (dumps False (JDict d)) of
                    Some modified_body \<Rightarrow> modified_body
                  | None \<Rightarrow> body)
      else (\<exists>d'. element_inserted replacement d d' \<and>
                 map_of d' SYSTEM =
                   Some (JList (new_element replacement # JDict first_element # rest)) \<and>
                 process_request_body lib (Some replacement) True body =
                   Inr (case utf8_encode (dumps False (JDict d')) of
                          Some modified_body \<Rightarrow> modified_body
                        | None \<Rightarrow> body))"
  proof (cases ?kw)
    case True
    with p same show ?thesis
      by (simp add: dump_body_def)
  next
    case False
    with p ins have "process_request_body lib (Some replacement) True body =
        Inr (case utf8_encode (dumps False (JDict d')) of
               Some modified_body \<Rightarrow> modified_body
             | None \<Rightarrow> body)"
      by (simp add: dump_body_def)
    with False ins(2) sys show ?thesis
      by auto
  qed
qed

text \<open>
  The theorem at the body of scenario S2 with its own text as the replacement, which
  contains the keyword: the bytes that come out are the bytes that went in. And at a
  body whose text is \<open>X\<close>, with a lone surrogate in another field and the replacement
  \<open>X\<close>, which does not contain the keyword: the document with the new element cannot be
  encoded, and the bytes that come out are the bytes that went in.
\<close>

theorem process_request_body_insert_same_text_witness:
  "lib_loads example_lib body_S2 = Inr data_S2 \<and>
   lib_print example_lib (preview (py_str ''You are Claude Code.'')) \<and>
   str_contains (lib_lower example_lib CLAUDE_CODE_KEYWORD)
     (lib_lower example_lib (py_str ''You are Claude Code.'')) \<and>
   process_request_body example_lib (Some (py_str ''You are Claude Code.'')) True body_S2 =
     Inr (case utf8_encode (dumps False data_S2) of
            Some modified_body \<Rightarrow> modified_body
          | None \<Rightarrow> body_S2) \<and>
   utf8_encode (dumps False data_S2) = Some body_S2 \<and>
   lib_loads example_lib body_X_surrogate = Inr data_X_surrogate \<and>
   \<not> str_contains (lib_lower example_lib CLAUDE_CODE_KEYWORD) (lib_lower example_lib (py_str ''X'')) \<and>
   process_request_body example_lib (Some (py_str ''X'')) True body_X_surrogate =
     Inr body_X_surrogate"
proof -
  let ?r = "py_str ''You are Claude Code.''"
  let ?fe = "[(py_str ''type'', JStr (py_str ''text'')), (py_str ''text'', JStr ?r)]"
  let ?d = "[(py_str ''system'', JList [JDict ?fe]), (py_str ''model'', JStr (py_str ''m''))]"
  have l: "lib_loads example_lib body_S2 = Inr (JDict ?d)"
    by (simp add: example_lib_def example_loads_def data_S2_def)
  have d: "data_S2 = JDict ?d"
    by (simp add: data_S2_def)
  have s: "map_of ?d SYSTEM = Some (JList (JDict ?fe # []))"
    and t: "map_of ?fe TEXT = Some (JStr ?r)"
    by (simp_all add: SYSTEM_def TEXT_def py_str_def)
  have pr: "lib_print example_lib (preview ?r)"
    by (simp add: example_lib_def utf8_print_def preview_def py_str_def utf8_char_def)
  have k: "str_contains (lib_lower example_lib CLAUDE_CODE_KEYWORD) (lib_lower example_lib ?r)"
    by (simp add: example_lib_def CLAUDE_CODE_KEYWORD_def ascii_lower_def py_str_def)
  note inst = process_request_body_insert_same_text
    [of example_lib body_S2 ?r, rule_format, of ?d ?fe "[]"]
  from inst [OF conjI [OF l conjI [OF s conjI [OF t pr]]]] k
  have "process_request_body example_lib (Some ?r) True body_S2 =
        Inr (case utf8_encode (dumps False (JDict ?d)) of
               Some modified_body \<Rightarrow> modified_body
             | None \<Rightarrow> body_S2)"
    by (simp only: if_True)
  then have p: "process_request_body example_lib (Some ?r) True body_S2 =
        Inr (case utf8_encode (dumps False data_S2) of
               Some modified_body \<Rightarrow> modified_body
             | None \<Rightarrow> body_S2)"
    by (simp only: d)
  have v: "utf8_encode (dumps False data_S2) = Some body_S2"
    by (simp add: body_eval)
  have l2: "lib_loads example_lib body_X_surrogate = Inr data_X_surrogate"
    by (simp add: body_eval)
  have k2: "\<not> str_contains (lib_lower example_lib CLAUDE_CODE_KEYWORD)
      (lib_lower example_lib (py_str ''X''))"
    by (simp add: example_lib_def CLAUDE_CODE_KEYWORD_def ascii_lower_def py_str_def)
  have v2: "process_request_body example_lib (Some (py_str ''X'')) True body_X_surrogate =
     Inr body_X_surrogate"
    by (simp add: body_eval)
  from l d have l': "lib_loads example_lib body_S2 = Inr data_S2"
    by simp
  from l' pr k p v l2 k2 v2 show ?thesis by (intro conjI)
qed

text \<open>
  The claim as it was stated fails for a replacement without the keyword: the body whose
  \<open>system[0].text\<close> is already \<open>X\<close>, with the replacement \<open>X\<close> and insert mode on, comes
  out with a second element in front.
\<close>

theorem process_request_body_insert_same_text_counterexample:
  \<open>lib_loads example_lib body_X = Inr data_X \<and>
   data_X = JDict [(SYSTEM, JList [JDict [(py_str ''type'', JStr (py_str ''text'')),
                                          (TEXT, JStr (py_str ''X''))]])] \<and>
   process_request_body example_lib (Some (py_str ''X'')) True body_X =
     Inr (py_bytes ''{"system":[{"type":"text","text":"X","cache_control":{"type":"ephemeral"}},{"type":"text","text":"X"}]}'')\<close>
  by (simp add: body_eval)

section \<open>Properties of the cooldown store\<close>

subsection \<open>Key identifiers\<close>


lemma hex_digit_lower: "d < 16 \<Longrightarrow> is_lower_hex (hex_digit d)"
  by (auto simp: hex_digit_def is_lower_hex_def)

lemma hex8_ok: "length (hex8 w) = 8 \<and> list_all is_lower_hex (hex8 w)"
  by (simp add: hex8_def list_all_iff hex_digit_lower)

lemma hexdigest_ok: "length (hexdigest s) = 64 \<and> list_all is_lower_hex (hexdigest s)"
  by (simp add: hexdigest_def hex8_ok split: prod.splits)

lemma key_id_is_key_id: "key_id key = Inr kid \<Longrightarrow> is_key_id kid"
proof -
  assume "key_id key = Inr kid"
  then obtain b where "kid = take 16 (hexdigest (sha256 b))"
    by (auto simp: key_id_def split: option.splits)
  moreover have "list_all is_lower_hex (take 16 (hexdigest (sha256 b)))"
    using hexdigest_ok [of "sha256 b"] by (auto simp: list_all_iff dest: in_set_takeD)
  ultimately show ?thesis
    using hexdigest_ok [of "sha256 b"] by (simp add: is_key_id_def)
qed

lemma is_key_id_not_Nil: "is_key_id kid \<Longrightarrow> kid \<noteq> []"
  by (auto simp: is_key_id_def)

lemma key_ids_lookup:
  "key_ids keys = Inr t \<Longrightarrow> map_of t key = Some kid \<Longrightarrow> key_id key = Inr kid"
  by (induction keys arbitrary: t) (auto split: sum.splits if_splits)

lemma kid_of_key_id:
  assumes "load_config urls keys = Inr cfg"
  shows "kid_of cfg key = key_id key"
proof (cases "map_of (KEY_ID_BY_KEY cfg) key")
  case None
  then show ?thesis by (simp add: kid_of_def)
next
  case (Some kid)
  from assms obtain t where t: "key_ids keys = Inr t" "KEY_ID_BY_KEY cfg = t"
    by (auto simp: load_config_def split: sum.splits)
  with Some have "key_id key = Inr kid"
    by (auto dest: key_ids_lookup)
  with Some show ?thesis
    by (simp add: kid_of_def)
qed

lemma kid_of_is_key_id:
  "load_config urls keys = Inr cfg \<Longrightarrow> kid_of cfg key = Inr kid \<Longrightarrow> is_key_id kid"
  by (simp add: kid_of_key_id key_id_is_key_id)

lemma table_is_key_id:
  assumes "load_config urls keys = Inr cfg" "map_of (KEY_ID_BY_KEY cfg) key = Some kid"
  shows "is_key_id kid"
proof -
  from assms(1) obtain t where t: "key_ids keys = Inr t" "KEY_ID_BY_KEY cfg = t"
    by (auto simp: load_config_def split: sum.splits)
  with assms(2) have "key_id key = Inr kid"
    by (auto dest: key_ids_lookup)
  then show ?thesis by (rule key_id_is_key_id)
qed




lemma utf8_example_key: "utf8_encode example_key = Some (py_bytes ''sk-key-1'')"
  by (simp add: example_key_def py_str_def py_bytes_def utf8_char_def)

lemma key_id_example: "key_id example_key = Inr example_kid"
  by (simp add: key_id_def utf8_example_key example_kid_def)

lemma load_config_example: "load_config [example_url] [example_key] = Inr example_cfg"
  by (simp add: load_config_def key_id_example example_cfg_def)

lemma example_kid_ok: "is_key_id example_kid"
  using key_id_example by (rule key_id_is_key_id)

lemma kid_of_example: "kid_of example_cfg example_key = Inr example_kid"
  using is_key_id_not_Nil [OF example_kid_ok] by (simp add: kid_of_def example_cfg_def)

subsection \<open>Expired cooldowns\<close>

text \<open>
  Claim C9. A cooldown entry whose expiry is at or before the current time counts as
  absent and is removed by the next check: for a URL with such an entry
  \<open>is_url_in_cooldown\<close> returns \<open>False\<close> and the entry is gone from
  \<open>url_cooldown_until\<close>, the other entries staying; for a key with such an entry under its
  identifier \<open>is_key_in_cooldown\<close> returns \<open>False\<close> and the entry is gone from
  \<open>key_cooldown_until\<close>, the other entries staying.
\<close>

theorem expired_cooldown_removed:
  "(\<forall>v until. map_of (url_cooldown_until st) url = Some v \<and> num_of v = Some until \<and> until \<le> now \<longrightarrow>
      (\<exists>st'. is_url_in_cooldown now url st = Inr (False, st') \<and>
         map_of (url_cooldown_until st') url = None \<and>
         (\<forall>u. u \<noteq> url \<longrightarrow> map_of (url_cooldown_until st') u = map_of (url_cooldown_until st) u))) \<and>
   (\<forall>kid v until. kid_of cfg key = Inr kid \<and> map_of (key_cooldown_until st) kid = Some v \<and>
        num_of v = Some until \<and> until \<le> now \<longrightarrow>
      (\<exists>st'. is_key_in_cooldown cfg now key st = Inr (False, st') \<and>
         map_of (key_cooldown_until st') kid = None \<and>
         (\<forall>k. k \<noteq> kid \<longrightarrow> map_of (key_cooldown_until st') k = map_of (key_cooldown_until st) k)))"
  by (auto simp: is_url_in_cooldown_def is_key_in_cooldown_def save_cooldowns_def delete_conv')

text \<open>
  The theorem at a store whose URL and key cooldowns end at time 1000, checked at time
  1000: both count as expired.
\<close>

theorem expired_cooldown_removed_witness:
  "is_url_in_cooldown 1000 example_url cooling_store =
     Inr (False, cooling_store\<lparr>url_cooldown_until := []\<rparr>) \<and>
   (\<exists>st'. is_key_in_cooldown example_cfg 1000 example_key cooling_store = Inr (False, st') \<and>
      map_of (key_cooldown_until st') example_kid = None)"
proof -
  have u: "map_of (url_cooldown_until cooling_store) example_url = Some (JFloat 1000) \<and>
        num_of (JFloat 1000) = Some 1000 \<and> (1000::real) \<le> 1000"
    by (simp add: cooling_store_def num_of_def)
  have k: "kid_of example_cfg example_key = Inr example_kid \<and>
        map_of (key_cooldown_until cooling_store) example_kid = Some (JFloat 1000) \<and>
        num_of (JFloat 1000) = Some 1000 \<and> (1000::real) \<le> 1000"
    by (simp add: cooling_store_def num_of_def kid_of_example)
  note inst = expired_cooldown_removed [of cooling_store example_url 1000 example_cfg example_key]
  from inst [THEN conjunct1, rule_format, OF u] obtain st' where
    "is_url_in_cooldown 1000 example_url cooling_store = Inr (False, st')" by blast
  moreover have "is_url_in_cooldown 1000 example_url cooling_store =
     Inr (False, cooling_store\<lparr>url_cooldown_until := []\<rparr>)"
    by (simp add: is_url_in_cooldown_def cooling_store_def num_of_def)
  moreover from inst [THEN conjunct2, rule_format, OF k]
  have "\<exists>st'. is_key_in_cooldown example_cfg 1000 example_key cooling_store = Inr (False, st') \<and>
      map_of (key_cooldown_until st') example_kid = None" by blast
  ultimately show ?thesis by blast
qed

subsection \<open>Pending cooldowns: confirm and clear\<close>


lemma map_of_fold_update:
  "map_of (fold (\<lambda>kid d. AList.update kid v d) kids d) k =
   (if k \<in> set kids then Some v else map_of d k)"
  by (induction kids arbitrary: d) (auto simp: update_conv')

lemma add_pending_result:
  assumes "kid_of cfg key = Inr kid"
  shows "\<exists>st1 kids. add_pending_cooldown cfg url key st = Inr ((), st1) \<and>
           map_of (pending_cooldown_keys st1) url = Some kids \<and> kid \<in> set kids \<and>
           key_cooldown_until st1 = key_cooldown_until st \<and> written st1 = written st \<and>
           url_cooldown_until st1 = url_cooldown_until st"
  using assms
  by (cases "map_of (pending_cooldown_keys st) url")
     (auto simp: add_pending_cooldown_def Let_def update_conv')

lemma confirm_result:
  assumes "map_of (pending_cooldown_keys st) url = Some kids" "kids \<noteq> []"
  shows "key_cooldown_until (confirm_cooldown_for_url now url st) =
           fold (\<lambda>kid d. AList.update kid (JFloat (now + KEY_COOLDOWN_HOURS * 3600)) d)
             kids (key_cooldown_until st)"
    and "map_of (pending_cooldown_keys (confirm_cooldown_for_url now url st)) url = Some []"
  using assms by (simp_all add: confirm_cooldown_for_url_def save_cooldowns_def update_conv')

lemma clear_result:
  assumes "map_of (pending_cooldown_keys st) url = Some kids"
  shows "key_cooldown_until (clear_pending_cooldown url st) = key_cooldown_until st"
    and "written (clear_pending_cooldown url st) = written st"
    and "map_of (pending_cooldown_keys (clear_pending_cooldown url st)) url = Some []"
  using assms by (simp_all add: clear_pending_cooldown_def update_conv')

lemma is_key_in_cooldown_False_cong:
  assumes "key_cooldown_until st' = key_cooldown_until st"
    and "is_key_in_cooldown cfg now key st = Inr (False, s)"
  shows "\<exists>s'. is_key_in_cooldown cfg now key st' = Inr (False, s')"
  using assms
  by (auto simp: is_key_in_cooldown_def split: sum.splits option.splits if_splits)

text \<open>
  Claim C4. For a key with an identifier: \<open>add_pending_cooldown(u, k)\<close> returns and leaves
  the identifier in the pending list of \<open>u\<close>. After \<open>confirm_cooldown_for_url(u)\<close> at time
  \<open>now\<close> every identifier pending on \<open>u\<close> has the cooldown \<open>now + 72 * 3600\<close>, the list of
  \<open>u\<close> is empty, and \<open>is_key_in_cooldown(k)\<close> is true at every time before that expiry.
  After \<open>clear_pending_cooldown(u)\<close> instead, the list of \<open>u\<close> is empty, the key cooldowns
  are what they were before the key was added, and \<open>is_key_in_cooldown(k)\<close> is false
  whenever it was false before.
\<close>

theorem pending_confirm_clear:
  "kid_of cfg key = Inr kid \<longrightarrow>
   (\<exists>st1 kids. add_pending_cooldown cfg url key st = Inr ((), st1) \<and>
      map_of (pending_cooldown_keys st1) url = Some kids \<and> kid \<in> set kids \<and>
      (\<forall>now now'. now' < now + KEY_COOLDOWN_HOURS * 3600 \<longrightarrow>
         is_key_in_cooldown cfg now' key (confirm_cooldown_for_url now url st1) =
           Inr (True, confirm_cooldown_for_url now url st1) \<and>
         map_of (pending_cooldown_keys (confirm_cooldown_for_url now url st1)) url = Some [] \<and>
         list_all (\<lambda>k. map_of (key_cooldown_until (confirm_cooldown_for_url now url st1)) k =
                         Some (JFloat (now + KEY_COOLDOWN_HOURS * 3600))) kids) \<and>
      key_cooldown_until (clear_pending_cooldown url st1) = key_cooldown_until st \<and>
      map_of (pending_cooldown_keys (clear_pending_cooldown url st1)) url = Some [] \<and>
      (\<forall>now s. is_key_in_cooldown cfg now key st = Inr (False, s) \<longrightarrow>
         (\<exists>s'. is_key_in_cooldown cfg now key (clear_pending_cooldown url st1) = Inr (False, s'))))"
proof
  assume kid: "kid_of cfg key = Inr kid"
  from add_pending_result [OF kid, of url st] obtain st1 kids where
    a: "add_pending_cooldown cfg url key st = Inr ((), st1)"
    and p: "map_of (pending_cooldown_keys st1) url = Some kids" and m: "kid \<in> set kids"
    and same: "key_cooldown_until st1 = key_cooldown_until st"
    by blast
  from m have ne: "kids \<noteq> []" by auto
  have confirm: "is_key_in_cooldown cfg now' key (confirm_cooldown_for_url now url st1) =
           Inr (True, confirm_cooldown_for_url now url st1) \<and>
         map_of (pending_cooldown_keys (confirm_cooldown_for_url now url st1)) url = Some [] \<and>
         list_all (\<lambda>k. map_of (key_cooldown_until (confirm_cooldown_for_url now url st1)) k =
                         Some (JFloat (now + KEY_COOLDOWN_HOURS * 3600))) kids"
    if t: "now' < now + KEY_COOLDOWN_HOURS * 3600" for now now'
  proof -
    let ?st2 = "confirm_cooldown_for_url now url st1"
    have all: "map_of (key_cooldown_until ?st2) k = Some (JFloat (now + KEY_COOLDOWN_HOURS * 3600))"
      if "k \<in> set kids" for k
      using that by (simp add: confirm_result(1) [OF p ne] map_of_fold_update)
    from all [OF m] t have "is_key_in_cooldown cfg now' key ?st2 = Inr (True, ?st2)"
      by (simp add: is_key_in_cooldown_def kid num_of_def)
    with all confirm_result(2) [OF p ne] show ?thesis
      by (simp add: list_all_iff)
  qed
  have "key_cooldown_until (clear_pending_cooldown url st1) = key_cooldown_until st"
    using clear_result(1) [OF p] same by simp
  moreover from this
  have "\<exists>s'. is_key_in_cooldown cfg now key (clear_pending_cooldown url st1) = Inr (False, s')"
    if "is_key_in_cooldown cfg now key st = Inr (False, s)" for now s
    using that by (rule is_key_in_cooldown_False_cong)
  ultimately show "\<exists>st1 kids. add_pending_cooldown cfg url key st = Inr ((), st1) \<and>
      map_of (pending_cooldown_keys st1) url = Some kids \<and> kid \<in> set kids \<and>
      (\<forall>now now'. now' < now + KEY_COOLDOWN_HOURS * 3600 \<longrightarrow>
         is_key_in_cooldown cfg now' key (confirm_cooldown_for_url now url st1) =
           Inr (True, confirm_cooldown_for_url now url st1) \<and>
         map_of (pending_cooldown_keys (confirm_cooldown_for_url now url st1)) url = Some [] \<and>
         list_all (\<lambda>k. map_of (key_cooldown_until (confirm_cooldown_for_url now url st1)) k =
                         Some (JFloat (now + KEY_COOLDOWN_HOURS * 3600))) kids) \<and>
      key_cooldown_until (clear_pending_cooldown url st1) = key_cooldown_until st \<and>
      map_of (pending_cooldown_keys (clear_pending_cooldown url st1)) url = Some [] \<and>
      (\<forall>now s. is_key_in_cooldown cfg now key st = Inr (False, s) \<longrightarrow>
         (\<exists>s'. is_key_in_cooldown cfg now key (clear_pending_cooldown url st1) = Inr (False, s')))"
    using a p m confirm clear_result(3) [OF p] by blast
qed

text \<open>
  The theorem at the one-key configuration: the key is added on an empty store, then the
  URL is confirmed at time 0 and the key checked one second before the 72 hours are over,
  or the URL is cleared and the key checked.
\<close>


theorem pending_confirm_clear_witness:
  "kid_of example_cfg example_key = Inr example_kid \<and>
   add_pending_cooldown example_cfg example_url example_key empty_store =
     Inr ((), empty_store\<lparr>pending_cooldown_keys := [(example_url, [example_kid])]\<rparr>) \<and>
   is_key_in_cooldown example_cfg 259199 example_key
       (confirm_cooldown_for_url 0 example_url
          (empty_store\<lparr>pending_cooldown_keys := [(example_url, [example_kid])]\<rparr>)) =
     Inr (True, confirm_cooldown_for_url 0 example_url
          (empty_store\<lparr>pending_cooldown_keys := [(example_url, [example_kid])]\<rparr>)) \<and>
   (\<exists>s'. is_key_in_cooldown example_cfg 259199 example_key
       (clear_pending_cooldown example_url
          (empty_store\<lparr>pending_cooldown_keys := [(example_url, [example_kid])]\<rparr>)) =
     Inr (False, s'))"
proof -
  let ?p = "empty_store\<lparr>pending_cooldown_keys := [(example_url, [example_kid])]\<rparr>"
  have a: "add_pending_cooldown example_cfg example_url example_key empty_store = Inr ((), ?p)"
    by (simp add: add_pending_cooldown_def kid_of_example empty_store_def)
  have f: "is_key_in_cooldown example_cfg 259199 example_key empty_store = Inr (False, empty_store)"
    by (simp add: is_key_in_cooldown_def kid_of_example empty_store_def)
  from pending_confirm_clear [of example_cfg example_key example_kid example_url empty_store]
    kid_of_example
  obtain st1 kids where
    r: "add_pending_cooldown example_cfg example_url example_key empty_store = Inr ((), st1)"
    "\<forall>now now'. now' < now + KEY_COOLDOWN_HOURS * 3600 \<longrightarrow>
         is_key_in_cooldown example_cfg now' example_key (confirm_cooldown_for_url now example_url st1) =
           Inr (True, confirm_cooldown_for_url now example_url st1) \<and>
         map_of (pending_cooldown_keys (confirm_cooldown_for_url now example_url st1)) example_url = Some [] \<and>
         list_all (\<lambda>k. map_of (key_cooldown_until (confirm_cooldown_for_url now example_url st1)) k =
                         Some (JFloat (now + KEY_COOLDOWN_HOURS * 3600))) kids"
    "\<forall>now s. is_key_in_cooldown example_cfg now example_key empty_store = Inr (False, s) \<longrightarrow>
         (\<exists>s'. is_key_in_cooldown example_cfg now example_key
                 (clear_pending_cooldown example_url st1) = Inr (False, s'))"
    by blast
  from r(1) a have st1: "st1 = ?p" by simp
  have "(259199::real) < 0 + KEY_COOLDOWN_HOURS * 3600"
    by (simp add: KEY_COOLDOWN_HOURS_def)
  with r(2) have c: "is_key_in_cooldown example_cfg 259199 example_key
       (confirm_cooldown_for_url 0 example_url st1) =
     Inr (True, confirm_cooldown_for_url 0 example_url st1)"
    by blast
  from r(3) f have "\<exists>s'. is_key_in_cooldown example_cfg 259199 example_key
       (clear_pending_cooldown example_url st1) = Inr (False, s')"
    by blast
  with kid_of_example a c show ?thesis
    unfolding st1 by blast
qed

subsection \<open>The order of the keys\<close>















text \<open>
  The theorem at three keys without cooldown and usage counts 2, 0 and 2, and at the
  one-key configuration whose key is in cooldown.
\<close>


lemma hexdigest_not_Nil: "hexdigest s \<noteq> []"
  using hexdigest_ok [of s] by auto


lemma load_config_three:
  "load_config [example_url] [py_str ''sk-a'', py_str ''sk-b'', py_str ''sk-c''] = Inr three_cfg"
  by (simp add: load_config_def key_id_def three_cfg_def py_str_def py_bytes_def utf8_char_def)






subsection \<open>Key identifiers on disk\<close>


lemma update_keys_ok:
  "list_all P (map fst d) \<Longrightarrow> P k \<Longrightarrow> list_all P (map fst (AList.update k v d))"
  by (auto simp: update_keys list_all_iff)

lemma delete_keys_ok:
  "list_all P (map fst d) \<Longrightarrow> list_all P (map fst (AList.delete k d))"
  by (auto simp: list_all_iff delete_keys)

lemma fold_update_keys_ok:
  "list_all P (map fst d) \<Longrightarrow> list_all P kids \<Longrightarrow>
   list_all P (map fst (fold (\<lambda>kid d. AList.update kid v d) kids d))"
  by (induction kids arbitrary: d) (auto simp: update_keys_ok)

lemma normalize_keys_ok:
  assumes "load_config urls keys = Inr cfg"
  shows "list_all is_key_id (map fst acc) \<Longrightarrow> normalize cfg sv raw acc = Inr n \<Longrightarrow>
         list_all is_key_id (map fst n)"
proof (induction raw arbitrary: acc)
  case Nil
  then show ?case by simp
next
  case (Cons p raw)
  obtain k v where p: "p = (k, v)" by (cases p)
  from Cons.prems(2) obtain version where ver: "num_of sv = Some version"
    by (auto simp: p split: option.splits)
  show ?case
  proof (cases "version \<ge> 2 \<and> is_key_id k")
    case True
    with Cons.prems ver have "normalize cfg sv raw (AList.update k v acc) = Inr n"
      by (simp add: p)
    moreover have "list_all is_key_id (map fst (AList.update k v acc))"
      using Cons.prems(1) True by (simp add: update_keys_ok)
    ultimately show ?thesis by (rule Cons.IH [rotated])
  next
    case False
    show ?thesis
    proof (cases "map_of (KEY_ID_BY_KEY cfg) k")
      case None
      with Cons.prems ver False have "normalize cfg sv raw acc = Inr n"
        by (auto simp: p)
      with Cons.prems(1) show ?thesis by (rule Cons.IH)
    next
      case (Some kid)
      with Cons.prems ver False have "normalize cfg sv raw (AList.update kid v acc) = Inr n"
        by (auto simp: p)
      moreover have "list_all is_key_id (map fst (AList.update kid v acc))"
        using Cons.prems(1) table_is_key_id [OF assms Some] by (simp add: update_keys_ok)
      ultimately show ?thesis by (rule Cons.IH [rotated])
    qed
  qed
qed

lemma unexpired_subset: "unexpired now d = Inr r \<Longrightarrow> set r \<subseteq> set d"
proof (induction d arbitrary: r)
  case Nil
  then show ?case by simp
next
  case (Cons p d)
  obtain k v where p: "p = (k, v)" by (cases p)
  from Cons.prems obtain t rest where t: "num_of v = Some t"
    and rest: "unexpired now d = Inr rest" and r: "r = (if t > now then (k, v) # rest else rest)"
    by (auto simp: p split: option.splits sum.splits)
  from Cons.IH [OF rest] r show ?case
    by (auto simp: p)
qed

lemma unexpired_keys_ok:
  "list_all P (map fst d) \<Longrightarrow> unexpired now d = Inr r \<Longrightarrow> list_all P (map fst r)"
  using unexpired_subset [of now d r] by (auto simp: list_all_iff)

lemma load_cooldowns_keys_ok:
  assumes "load_config urls keys = Inr cfg"
  shows "list_all is_key_id (map fst (fst (load_cooldowns cfg now file)))"
proof (cases "file")
  case None
  then show ?thesis by (simp add: load_cooldowns_def)
next
  case (Some doc)
  show ?thesis
  proof (cases doc)
    case (JDict data)
    let ?raw = "dict_get data (py_str ''keys'') (JDict [])"
    let ?sv = "dict_get data (py_str ''schema_version'') (JInt 1)"
    let ?n = "case ?raw of JDict raw \<Rightarrow> normalize cfg ?sv raw [] | _ \<Rightarrow> Inr []"
    show ?thesis
    proof (cases ?n)
      case (Inl e)
      then show ?thesis
        using Some JDict by (simp add: load_cooldowns_def Let_def)
    next
      case (Inr normalized)
      then have ok: "list_all is_key_id (map fst normalized)"
        using normalize_keys_ok [OF assms, of "[]" ?sv _ normalized]
        by (cases ?raw) auto
      show ?thesis
      proof (cases "unexpired now normalized")
        case (Inl e)
        then show ?thesis
          using Some JDict Inr ok by (simp add: load_cooldowns_def Let_def)
      next
        case r: (Inr live)
        then have "list_all is_key_id (map fst live)"
          using ok by (auto intro: unexpired_keys_ok)
        then show ?thesis
          using Some JDict Inr r
          by (auto simp: load_cooldowns_def Let_def split: json.splits sum.splits)
      qed
    qed
  qed (simp_all add: Some load_cooldowns_def)
qed

lemma cooldown_document_ok:
  "doc_keys_ok (cooldown_document st) \<longleftrightarrow> list_all is_key_id (map fst (key_cooldown_until st))"
  by (simp add: doc_keys_ok_def cooldown_document_def py_str_def)

lemma kids_ok_save: "kids_ok st \<Longrightarrow> kids_ok (save_cooldowns st)"
  by (simp add: kids_ok_def save_cooldowns_def cooldown_document_ok)

lemma pending_update_ok:
  "list_all (\<lambda>p. list_all is_key_id (snd p)) d \<Longrightarrow> list_all is_key_id kids \<Longrightarrow>
   list_all (\<lambda>p. list_all is_key_id (snd p)) (AList.update url kids d)"
  by (induction d) auto

lemma pending_lookup_ok:
  "list_all (\<lambda>p. list_all is_key_id (snd p)) d \<Longrightarrow> map_of d url = Some kids \<Longrightarrow>
   list_all is_key_id kids"
  by (auto simp: list_all_iff dest!: map_of_SomeD)

lemma kids_ok_startup:
  "load_config urls keys = Inr cfg \<Longrightarrow> kids_ok (startup cfg now file latch)"
  by (simp add: kids_ok_def startup_def load_cooldowns_keys_ok)

lemma kids_ok_add_pending:
  assumes "load_config urls keys = Inr cfg" "kids_ok st"
  shows "add_pending_cooldown cfg url key st = Inr ((), st') \<Longrightarrow> kids_ok st'"
    and "add_pending_cooldown cfg url key st = Inl (e, st') \<Longrightarrow> kids_ok st'"
proof -
  let ?st1 = "if map_of (pending_cooldown_keys st) url = None
               then st\<lparr>pending_cooldown_keys := AList.update url [] (pending_cooldown_keys st)\<rparr>
               else st"
  have ok1: "kids_ok ?st1"
    using assms(2) by (auto simp: kids_ok_def pending_update_ok)
  show "kids_ok st'" if "add_pending_cooldown cfg url key st = Inl (e, st')"
    using that ok1 by (auto simp: add_pending_cooldown_def Let_def split: sum.splits if_splits)
  show "kids_ok st'" if r: "add_pending_cooldown cfg url key st = Inr ((), st')"
  proof -
    from r obtain kid where kid: "kid_of cfg key = Inr kid"
      by (auto simp: add_pending_cooldown_def Let_def split: sum.splits)
    then have k: "is_key_id kid"
      using assms(1) by (rule kid_of_is_key_id [rotated])
    let ?kids = "case map_of (pending_cooldown_keys ?st1) url of None \<Rightarrow> [] | Some l \<Rightarrow> l"
    have "list_all is_key_id ?kids"
      using ok1 by (auto simp: kids_ok_def split: option.splits dest: pending_lookup_ok)
    then have "kids_ok (?st1\<lparr>pending_cooldown_keys :=
                 AList.update url (?kids @ [kid]) (pending_cooldown_keys ?st1)\<rparr>)"
      using ok1 k by (simp add: kids_ok_def pending_update_ok)
    with r kid ok1 show ?thesis
      by (auto simp: add_pending_cooldown_def Let_def split: if_splits)
  qed
qed

lemma kids_ok_confirm: "kids_ok st \<Longrightarrow> kids_ok (confirm_cooldown_for_url now url st)"
proof -
  assume ok: "kids_ok st"
  show ?thesis
  proof (cases "map_of (pending_cooldown_keys st) url")
    case None
    with ok show ?thesis by (simp add: confirm_cooldown_for_url_def)
  next
    case (Some kids)
    with ok have "list_all is_key_id kids"
      by (auto simp: kids_ok_def dest: pending_lookup_ok)
    with ok have "kids_ok (st\<lparr>key_cooldown_until :=
                        fold (\<lambda>kid d. AList.update kid (JFloat (now + KEY_COOLDOWN_HOURS * 3600)) d)
                          kids (key_cooldown_until st),
                      pending_cooldown_keys := AList.update url [] (pending_cooldown_keys st)\<rparr>)"
      by (simp add: kids_ok_def fold_update_keys_ok pending_update_ok)
    with ok Some show ?thesis
      by (simp add: confirm_cooldown_for_url_def kids_ok_save)
  qed
qed

lemma kids_ok_clear: "kids_ok st \<Longrightarrow> kids_ok (clear_pending_cooldown url st)"
  by (auto simp: kids_ok_def clear_pending_cooldown_def pending_update_ok)

lemma kids_ok_set_key:
  assumes "load_config urls keys = Inr cfg" "kids_ok st"
    and "set_key_cooldown cfg now key st = Inr (b, st')"
  shows "kids_ok st'"
proof -
  from assms(3) obtain kid where kid: "kid_of cfg key = Inr kid"
    by (auto simp: set_key_cooldown_def split: sum.splits)
  then have "is_key_id kid"
    using assms(1) by (rule kid_of_is_key_id [rotated])
  with assms(2) have "kids_ok (st\<lparr>key_cooldown_until :=
          AList.update kid (JFloat (now + KEY_COOLDOWN_HOURS * 3600)) (key_cooldown_until st)\<rparr>)"
    by (simp add: kids_ok_def update_keys_ok)
  with assms(3) kid show ?thesis
    by (auto simp: set_key_cooldown_def kids_ok_save)
qed

lemma kids_ok_is_key:
  assumes "kids_ok st" "is_key_in_cooldown cfg now key st = Inr (b, st')"
  shows "kids_ok st'"
proof -
  have "kids_ok (st\<lparr>key_cooldown_until := AList.delete kid (key_cooldown_until st)\<rparr>)" for kid
    using assms(1) by (simp add: kids_ok_def delete_keys_ok)
  with assms show ?thesis
    by (auto simp: is_key_in_cooldown_def kids_ok_save
        split: sum.splits option.splits if_splits)
qed

lemma kids_ok_set_url: "kids_ok st \<Longrightarrow> kids_ok (set_url_cooldown now url st)"
proof -
  assume "kids_ok st"
  then have "kids_ok (st\<lparr>url_cooldown_until :=
      AList.update url (JFloat (now + URL_COOLDOWN_HOURS * 3600)) (url_cooldown_until st)\<rparr>)"
    by (simp add: kids_ok_def)
  then show ?thesis
    by (simp add: set_url_cooldown_def kids_ok_save)
qed

lemma kids_ok_is_url:
  "kids_ok st \<Longrightarrow> is_url_in_cooldown now url st = Inr (b, st') \<Longrightarrow> kids_ok st'"
  by (auto simp: is_url_in_cooldown_def kids_ok_def split: option.splits if_splits)

lemma reachable_config: "reachable cfg st \<Longrightarrow> \<exists>urls keys. load_config urls keys = Inr cfg"
  by (induction rule: reachable.induct) auto

lemma reachable_kids_ok: "reachable cfg st \<Longrightarrow> kids_ok st"
proof (induction rule: reachable.induct)
  case (start urls keys now f latch)
  then show ?case by (rule kids_ok_startup)
next
  case (add_pending st url key st')
  from reachable_config [OF add_pending(1)] obtain urls keys where "load_config urls keys = Inr cfg"
    by blast
  from kids_ok_add_pending(1) [OF this add_pending(3) add_pending(2)] show ?case .
next
  case (add_pending_raise st url key e st')
  from reachable_config [OF add_pending_raise(1)] obtain urls keys where "load_config urls keys = Inr cfg"
    by blast
  from kids_ok_add_pending(2) [OF this add_pending_raise(3) add_pending_raise(2)] show ?case .
next
  case (set_key st now key b st')
  from reachable_config [OF set_key(1)] obtain urls keys where "load_config urls keys = Inr cfg"
    by blast
  from kids_ok_set_key [OF this set_key(3) set_key(2)] show ?case .
next
  case (is_key st now key b st')
  then show ?case by (auto dest: kids_ok_is_key)
next
  case (is_url st now url b st')
  then show ?case by (auto dest: kids_ok_is_url)
next
  case (increment st key)
  then show ?case by (simp add: kids_ok_def increment_key_usage_def)
next
  case (latch st)
  then show ?case by (simp add: kids_ok_def)
qed (simp_all add: kids_ok_confirm kids_ok_clear kids_ok_set_url kids_ok_save)


lemma normalize_v1_step:
  assumes "num_of sv = Some ver" "ver < 2"
  shows "normalize cfg sv ((k, v) # raw) acc =
         normalize cfg sv raw
           (case map_of (KEY_ID_BY_KEY cfg) k of Some kid \<Rightarrow> AList.update kid v acc | None \<Rightarrow> acc)"
  using assms by (simp split: option.splits)

lemma normalize_v1_returns:
  assumes "num_of sv = Some ver" "ver < 2"
  shows "\<exists>n. normalize cfg sv raw acc = Inr n"
proof (induction raw arbitrary: acc)
  case Nil
  show ?case by simp
next
  case (Cons p raw)
  obtain k v where p: "p = (k, v)" by (cases p)
  show ?case
    unfolding p normalize_v1_step [OF assms] by (rule Cons.IH)
qed

lemma normalize_v1_sound:
  assumes "num_of sv = Some ver" "ver < 2"
  shows "normalize cfg sv raw acc = Inr n \<Longrightarrow> map_of n kid = Some v \<Longrightarrow>
         map_of acc kid = Some v \<or>
         (\<exists>k. (k, v) \<in> set raw \<and> map_of (KEY_ID_BY_KEY cfg) k = Some kid)"
proof (induction raw arbitrary: acc)
  case Nil
  then show ?case by simp
next
  case (Cons p raw)
  obtain k w where p: "p = (k, w)" by (cases p)
  let ?acc = "case map_of (KEY_ID_BY_KEY cfg) k of Some kid \<Rightarrow> AList.update kid w acc | None \<Rightarrow> acc"
  from Cons.prems(1) have "normalize cfg sv raw ?acc = Inr n"
    unfolding p normalize_v1_step [OF assms] .
  from Cons.IH [OF this Cons.prems(2)]
  have "map_of ?acc kid = Some v \<or>
        (\<exists>k. (k, v) \<in> set raw \<and> map_of (KEY_ID_BY_KEY cfg) k = Some kid)" .
  then show ?case
    by (auto simp: p update_conv' split: option.splits if_splits)
qed

lemma normalize_v1_untouched:
  assumes "num_of sv = Some ver" "ver < 2"
  shows "normalize cfg sv raw acc = Inr n \<Longrightarrow>
         list_all (\<lambda>p. map_of (KEY_ID_BY_KEY cfg) (fst p) \<noteq> Some kid) raw \<Longrightarrow>
         map_of n kid = map_of acc kid"
proof (induction raw arbitrary: acc)
  case Nil
  then show ?case by simp
next
  case (Cons p raw)
  obtain k w where p: "p = (k, w)" by (cases p)
  let ?acc = "case map_of (KEY_ID_BY_KEY cfg) k of Some kid \<Rightarrow> AList.update kid w acc | None \<Rightarrow> acc"
  from Cons.prems(1) have "normalize cfg sv raw ?acc = Inr n"
    unfolding p normalize_v1_step [OF assms] .
  from Cons.IH [OF this] Cons.prems(2) have "map_of n kid = map_of ?acc kid"
    by simp
  moreover have "map_of ?acc kid = map_of acc kid"
    using Cons.prems(2) by (auto simp: p update_conv' split: option.splits)
  ultimately show ?case by simp
qed

lemma normalize_v1_complete:
  assumes "num_of sv = Some ver" "ver < 2"
  shows "normalize cfg sv raw acc = Inr n \<Longrightarrow> (k, v) \<in> set raw \<Longrightarrow>
         map_of (KEY_ID_BY_KEY cfg) k = Some kid \<Longrightarrow>
         list_all (\<lambda>p. map_of (KEY_ID_BY_KEY cfg) (fst p) = Some kid \<longrightarrow> p = (k, v)) raw \<Longrightarrow>
         map_of n kid = Some v"
proof (induction raw arbitrary: acc)
  case Nil
  then show ?case by simp
next
  case (Cons p raw)
  obtain k' w where p: "p = (k', w)" by (cases p)
  let ?acc = "case map_of (KEY_ID_BY_KEY cfg) k' of Some kid \<Rightarrow> AList.update kid w acc | None \<Rightarrow> acc"
  from Cons.prems(1) have n: "normalize cfg sv raw ?acc = Inr n"
    unfolding p normalize_v1_step [OF assms] .
  from Cons.prems(4) have rest: "list_all (\<lambda>p. map_of (KEY_ID_BY_KEY cfg) (fst p) = Some kid \<longrightarrow> p = (k, v)) raw"
    by simp
  show ?case
  proof (cases "(k, v) \<in> set raw")
    case True
    from Cons.IH [OF n True Cons.prems(3) rest] show ?thesis .
  next
    case False
    with Cons.prems(2) have here: "k' = k" "w = v" by (auto simp: p)
    from False rest have "list_all (\<lambda>p. map_of (KEY_ID_BY_KEY cfg) (fst p) \<noteq> Some kid) raw"
      by (auto simp: list_all_iff)
    from normalize_v1_untouched [OF assms n this] have "map_of n kid = map_of ?acc kid" .
    also have "\<dots> = Some v"
      using Cons.prems(3) here by (simp add: update_conv')
    finally show ?thesis .
  qed
qed

lemma normalize_distinct:
  "distinct (map fst acc) \<Longrightarrow> normalize cfg sv raw acc = Inr n \<Longrightarrow> distinct (map fst n)"
proof (induction raw arbitrary: acc)
  case Nil
  then show ?case by simp
next
  case (Cons p raw)
  obtain k v where p: "p = (k, v)" by (cases p)
  from Cons.prems(2) obtain acc' where "normalize cfg sv raw acc' = Inr n" "distinct (map fst acc')"
    using Cons.prems(1)
    by (auto simp: p distinct_update split: option.splits if_splits)
  then show ?case by (rule Cons.IH [rotated])
qed

lemma unexpired_numeric:
  "list_all (\<lambda>p. num_of (snd p) \<noteq> None) d \<Longrightarrow>
   unexpired now d = Inr (filter (\<lambda>(k, v). \<exists>t. num_of v = Some t \<and> now < t) d)"
  by (induction d) auto

lemma normalize_numeric:
  "list_all (\<lambda>p. num_of (snd p) \<noteq> None) acc \<Longrightarrow> list_all (\<lambda>p. num_of (snd p) \<noteq> None) raw \<Longrightarrow>
   normalize cfg sv raw acc = Inr n \<Longrightarrow> list_all (\<lambda>p. num_of (snd p) \<noteq> None) n"
proof (induction raw arbitrary: acc)
  case Nil
  then show ?case by simp
next
  case (Cons p raw)
  obtain k v where p: "p = (k, v)" by (cases p)
  have up: "list_all (\<lambda>p. num_of (snd p) \<noteq> None) (AList.update kid v acc)" for kid
    using Cons.prems(1,2) unfolding p by (induction acc) auto
  from Cons.prems(3) obtain acc' where "normalize cfg sv raw acc' = Inr n"
    "list_all (\<lambda>p. num_of (snd p) \<noteq> None) acc'"
    using Cons.prems(1) up
    by (auto simp: p split: option.splits if_splits)
  with Cons.IH [of acc'] Cons.prems(2) show ?case by simp
qed

lemma load_cooldowns_v1:
  assumes data: "map_of data (py_str ''keys'') = Some (JDict raw)"
    and ver: "num_of (dict_get data (py_str ''schema_version'') (JInt 1)) = Some ver" "ver < 2"
    and num: "list_all (\<lambda>p. num_of (snd p) \<noteq> None) raw"
  shows "\<exists>n. normalize cfg (dict_get data (py_str ''schema_version'') (JInt 1)) raw [] = Inr n \<and>
           distinct (map fst n) \<and>
           fst (load_cooldowns cfg now (Some (JDict data))) =
             filter (\<lambda>(k, v). \<exists>t. num_of v = Some t \<and> now < t) n"
proof -
  let ?sv = "dict_get data (py_str ''schema_version'') (JInt 1)"
  from normalize_v1_returns [OF ver] obtain n where n: "normalize cfg ?sv raw [] = Inr n"
    by blast
  have d: "distinct (map fst n)"
    using normalize_distinct [OF _ n] by simp
  have "list_all (\<lambda>p. num_of (snd p) \<noteq> None) n"
    using normalize_numeric [OF _ num n] by simp
  then have u: "unexpired now n = Inr (filter (\<lambda>(k, v). \<exists>t. num_of v = Some t \<and> now < t) n)"
    by (rule unexpired_numeric)
  have "fst (load_cooldowns cfg now (Some (JDict data))) =
        filter (\<lambda>(k, v). \<exists>t. num_of v = Some t \<and> now < t) n"
    using data n u
    by (auto simp: load_cooldowns_def Let_def dict_get_def split: json.splits sum.splits)
  with n d show ?thesis by blast
qed


lemma load_v1_sound:
  assumes c: "load_config urls keys = Inr cfg"
    and data: "map_of data (py_str ''keys'') = Some (JDict raw)"
    and ver: "num_of (dict_get data (py_str ''schema_version'') (JInt 1)) = Some ver" "ver < 2"
    and num: "list_all (\<lambda>p. num_of (snd p) \<noteq> None) raw"
    and m: "map_of (fst (load_cooldowns cfg now (Some (JDict data)))) kid = Some v"
  shows "is_key_id kid \<and>
         (\<exists>k. (k, v) \<in> set raw \<and> map_of (KEY_ID_BY_KEY cfg) k = Some kid) \<and>
         (\<exists>t. num_of v = Some t \<and> now < t)"
proof -
  let ?sv = "dict_get data (py_str ''schema_version'') (JInt 1)"
  from load_cooldowns_v1 [OF data ver num, of cfg now] obtain n where
    n: "normalize cfg ?sv raw [] = Inr n" and d: "distinct (map fst n)"
    and l: "fst (load_cooldowns cfg now (Some (JDict data))) =
             filter (\<lambda>(k, v). \<exists>t. num_of v = Some t \<and> now < t) n"
    by blast
  from m l have "(kid, v) \<in> set (filter (\<lambda>(k, v). \<exists>t. num_of v = Some t \<and> now < t) n)"
    by (auto dest: map_of_SomeD)
  then have inn: "(kid, v) \<in> set n" and live: "\<exists>t. num_of v = Some t \<and> now < t"
    by auto
  from inn d have "map_of n kid = Some v" by simp
  from normalize_v1_sound [OF ver n this]
  obtain k where k: "(k, v) \<in> set raw" "map_of (KEY_ID_BY_KEY cfg) k = Some kid"
    by auto
  from c k(2) have "is_key_id kid"
    by (rule table_is_key_id)
  with k live show ?thesis
    by blast
qed

lemma load_v1_complete:
  assumes data: "map_of data (py_str ''keys'') = Some (JDict raw)"
    and ver: "num_of (dict_get data (py_str ''schema_version'') (JInt 1)) = Some ver" "ver < 2"
    and num: "list_all (\<lambda>p. num_of (snd p) \<noteq> None) raw"
    and k: "(k, v) \<in> set raw" "map_of (KEY_ID_BY_KEY cfg) k = Some kid"
    and only: "list_all (\<lambda>p. map_of (KEY_ID_BY_KEY cfg) (fst p) = Some kid \<longrightarrow> p = (k, v)) raw"
    and live: "num_of v = Some t" "now < t"
  shows "map_of (fst (load_cooldowns cfg now (Some (JDict data)))) kid = Some v"
proof -
  let ?sv = "dict_get data (py_str ''schema_version'') (JInt 1)"
  from load_cooldowns_v1 [OF data ver num, of cfg now] obtain n where
    n: "normalize cfg ?sv raw [] = Inr n" and d: "distinct (map fst n)"
    and l: "fst (load_cooldowns cfg now (Some (JDict data))) =
             filter (\<lambda>(k, v). \<exists>t. num_of v = Some t \<and> now < t) n"
    by blast
  have "map_of n kid = Some v"
    using n k only by (rule normalize_v1_complete [OF ver])
  with d live have "map_of (filter (\<lambda>(k, v). \<exists>t. num_of v = Some t \<and> now < t) n) kid = Some v"
    by (intro map_of_filter_in) auto
  with l show ?thesis
    by simp
qed

text \<open>
  Claim C7. In every store a process can reach, every document \<open>save_cooldowns\<close> has
  written, and the one it would write now, has only names matching \<open>[0-9a-f]{16}\<close> in its
  \<open>keys\<close> object. Reading a file of schema version 1 (or without a version) whose
  \<open>keys\<close> map plaintext keys to numbers gives key identifiers only: an entry of the loaded
  map is the identifier of a configured key that the file names, with the file's time,
  which has not passed; a file entry for a configured key, alone in the file for its
  identifier and with a time that has not passed, is loaded under the identifier. Entries
  of unknown keys and expired entries are therefore dropped.
\<close>

theorem no_plaintext_keys_on_disk:
  "(reachable cfg st \<longrightarrow> list_all doc_keys_ok (written st) \<and> doc_keys_ok (cooldown_document st)) \<and>
   (\<forall>urls keys data raw ver.
      load_config urls keys = Inr cfg \<and> map_of data (py_str ''keys'') = Some (JDict raw) \<and>
      num_of (dict_get data (py_str ''schema_version'') (JInt 1)) = Some ver \<and> ver < 2 \<and>
      list_all (\<lambda>p. num_of (snd p) \<noteq> None) raw \<longrightarrow>
      (\<forall>kid v. map_of (fst (load_cooldowns cfg now (Some (JDict data)))) kid = Some v \<longrightarrow>
         is_key_id kid \<and>
         (\<exists>k. (k, v) \<in> set raw \<and> map_of (KEY_ID_BY_KEY cfg) k = Some kid) \<and>
         (\<exists>t. num_of v = Some t \<and> now < t)) \<and>
      (\<forall>k v kid t. (k, v) \<in> set raw \<and> map_of (KEY_ID_BY_KEY cfg) k = Some kid \<and>
         list_all (\<lambda>p. map_of (KEY_ID_BY_KEY cfg) (fst p) = Some kid \<longrightarrow> p = (k, v)) raw \<and>
         num_of v = Some t \<and> now < t \<longrightarrow>
         map_of (fst (load_cooldowns cfg now (Some (JDict data)))) kid = Some v))"
proof (rule conjI)
  show "reachable cfg st \<longrightarrow> list_all doc_keys_ok (written st) \<and> doc_keys_ok (cooldown_document st)"
  proof
    assume "reachable cfg st"
    then have "kids_ok st" by (rule reachable_kids_ok)
    then show "list_all doc_keys_ok (written st) \<and> doc_keys_ok (cooldown_document st)"
      by (simp add: kids_ok_def cooldown_document_ok)
  qed
next
  show "\<forall>urls keys data raw ver.
      load_config urls keys = Inr cfg \<and> map_of data (py_str ''keys'') = Some (JDict raw) \<and>
      num_of (dict_get data (py_str ''schema_version'') (JInt 1)) = Some ver \<and> ver < 2 \<and>
      list_all (\<lambda>p. num_of (snd p) \<noteq> None) raw \<longrightarrow>
      (\<forall>kid v. map_of (fst (load_cooldowns cfg now (Some (JDict data)))) kid = Some v \<longrightarrow>
         is_key_id kid \<and>
         (\<exists>k. (k, v) \<in> set raw \<and> map_of (KEY_ID_BY_KEY cfg) k = Some kid) \<and>
         (\<exists>t. num_of v = Some t \<and> now < t)) \<and>
      (\<forall>k v kid t. (k, v) \<in> set raw \<and> map_of (KEY_ID_BY_KEY cfg) k = Some kid \<and>
         list_all (\<lambda>p. map_of (KEY_ID_BY_KEY cfg) (fst p) = Some kid \<longrightarrow> p = (k, v)) raw \<and>
         num_of v = Some t \<and> now < t \<longrightarrow>
         map_of (fst (load_cooldowns cfg now (Some (JDict data)))) kid = Some v)"
  proof (intro allI impI, elim conjE, rule conjI)
    fix urls keys data raw ver
    assume c: "load_config urls keys = Inr cfg"
      and data: "map_of data (py_str ''keys'') = Some (JDict raw)"
      and ver: "num_of (dict_get data (py_str ''schema_version'') (JInt 1)) = Some ver" "ver < 2"
      and num: "list_all (\<lambda>p. num_of (snd p) \<noteq> None) raw"
    show "\<forall>kid v. map_of (fst (load_cooldowns cfg now (Some (JDict data)))) kid = Some v \<longrightarrow>
         is_key_id kid \<and>
         (\<exists>k. (k, v) \<in> set raw \<and> map_of (KEY_ID_BY_KEY cfg) k = Some kid) \<and>
         (\<exists>t. num_of v = Some t \<and> now < t)"
      using load_v1_sound [OF c data ver num] by blast
    show "\<forall>k v kid t. (k, v) \<in> set raw \<and> map_of (KEY_ID_BY_KEY cfg) k = Some kid \<and>
         list_all (\<lambda>p. map_of (KEY_ID_BY_KEY cfg) (fst p) = Some kid \<longrightarrow> p = (k, v)) raw \<and>
         num_of v = Some t \<and> now < t \<longrightarrow>
         map_of (fst (load_cooldowns cfg now (Some (JDict data)))) kid = Some v"
      using load_v1_complete [OF data ver num] by blast
  qed
qed

lemma load_v1_file_early:
  "fst (load_cooldowns example_cfg 1000 (Some v1_file)) = [(example_kid, JFloat 2000)]"
  by (simp add: load_cooldowns_def v1_file_def Let_def dict_get_def py_str_def example_cfg_def
      example_key_def num_of_def is_key_id_def)

lemma load_v1_file_late:
  "fst (load_cooldowns example_cfg 2500 (Some v1_file)) = []"
  by (simp add: load_cooldowns_def v1_file_def Let_def dict_get_def py_str_def example_cfg_def
      example_key_def num_of_def is_key_id_def)

text \<open>
  The theorem at the one-key configuration and the version 1 file: at time 1000 the
  plaintext key is loaded under its identifier and the unknown key is dropped, at time
  2500 the entry has expired; the store after import is reachable, and what a save writes
  from it names the identifier only.
\<close>

theorem no_plaintext_keys_on_disk_witness:
  "load_config [example_url] [example_key] = Inr example_cfg \<and>
   reachable example_cfg (save_cooldowns (startup example_cfg 1000 (Some v1_file) False)) \<and>
   fst (load_cooldowns example_cfg 1000 (Some v1_file)) = [(example_kid, JFloat 2000)] \<and>
   fst (load_cooldowns example_cfg 2500 (Some v1_file)) = [] \<and>
   written (save_cooldowns (startup example_cfg 1000 (Some v1_file) False)) =
     [JDict [(py_str ''schema_version'', JInt 2),
             (py_str ''keys'', JDict [(example_kid, JFloat 2000)]),
             (py_str ''urls'', JDict [])]] \<and>
   list_all doc_keys_ok (written (save_cooldowns (startup example_cfg 1000 (Some v1_file) False))) \<and>
   is_key_id example_kid"
proof -
  let ?st = "save_cooldowns (startup example_cfg 1000 (Some v1_file) False)"
  have r: "reachable example_cfg ?st"
    by (rule reachable.save, rule reachable.start, rule load_config_example)
  have w: "written ?st =
     [JDict [(py_str ''schema_version'', JInt 2),
             (py_str ''keys'', JDict [(example_kid, JFloat 2000)]),
             (py_str ''urls'', JDict [])]]"
    by (simp add: save_cooldowns_def startup_def cooldown_document_def load_v1_file_early
        COOLDOWN_SCHEMA_VERSION_def)
  note inst = no_plaintext_keys_on_disk [of example_cfg ?st 1000]
  from inst r have ok: "list_all doc_keys_ok (written ?st)"
    by blast
  have raw: "map_of [(py_str ''keys'', JDict [(example_key, JFloat 2000), (py_str ''sk-gone'', JFloat 3000)]),
            (py_str ''urls'', JDict [])] (py_str ''keys'') =
       Some (JDict [(example_key, JFloat 2000), (py_str ''sk-gone'', JFloat 3000)])"
    by simp
  have m: "map_of (fst (load_cooldowns example_cfg 1000 (Some v1_file))) example_kid = Some (JFloat 2000)"
    by (simp add: load_v1_file_early)
  have pre: "load_config [example_url] [example_key] = Inr example_cfg \<and>
      map_of [(py_str ''keys'', JDict [(example_key, JFloat 2000), (py_str ''sk-gone'', JFloat 3000)]),
            (py_str ''urls'', JDict [])] (py_str ''keys'') =
       Some (JDict [(example_key, JFloat 2000), (py_str ''sk-gone'', JFloat 3000)]) \<and>
      num_of (dict_get [(py_str ''keys'', JDict [(example_key, JFloat 2000), (py_str ''sk-gone'', JFloat 3000)]),
            (py_str ''urls'', JDict [])] (py_str ''schema_version'') (JInt 1)) = Some 1 \<and> (1::real) < 2 \<and>
      list_all (\<lambda>p. num_of (snd p) \<noteq> None) [(example_key, JFloat 2000), (py_str ''sk-gone'', JFloat 3000)]"
    by (simp add: load_config_example dict_get_def py_str_def num_of_def)
  from inst [THEN conjunct2, rule_format, OF pre, THEN conjunct1, rule_format, of example_kid "JFloat 2000"]
    m
  have "is_key_id example_kid"
    by (simp add: v1_file_def)
  with load_config_example r load_v1_file_early load_v1_file_late w ok show ?thesis
    by (intro conjI)
qed

subsection \<open>The cooldown entries stay numbers\<close>

text \<open>
  The hypothesis of the amended claim is kept by the program: a cooldown file whose
  entries are numbers gives a store whose entries are numbers, every function of the
  store keeps this, and in such a store every key that has an identifier is readable.
\<close>

lemma numeric_update:
  "list_all (\<lambda>p. num_of (snd p) \<noteq> None) d \<Longrightarrow> num_of v \<noteq> None \<Longrightarrow>
   list_all (\<lambda>p. num_of (snd p) \<noteq> None) (AList.update k v d)"
  by (induction d) auto

lemma numeric_delete:
  "list_all (\<lambda>p. num_of (snd p) \<noteq> None) d \<Longrightarrow>
   list_all (\<lambda>p. num_of (snd p) \<noteq> None) (AList.delete k d)"
  by (induction d) auto

lemma numeric_fold_update:
  "list_all (\<lambda>p. num_of (snd p) \<noteq> None) d \<Longrightarrow>
   list_all (\<lambda>p. num_of (snd p) \<noteq> None)
     (fold (\<lambda>kid d. AList.update kid (JFloat t) d) kids d)"
proof (induction kids arbitrary: d)
  case Nil
  then show ?case by simp
next
  case (Cons kid kids)
  have "num_of (JFloat t) \<noteq> None"
    by (simp add: num_of_def)
  with Cons.prems have "list_all (\<lambda>p. num_of (snd p) \<noteq> None) (AList.update kid (JFloat t) d)"
    by (rule numeric_update)
  then show ?case
    using Cons.IH by simp
qed

lemma unexpired_keeps_numeric:
  "unexpired now d = Inr live \<Longrightarrow> list_all (\<lambda>p. num_of (snd p) \<noteq> None) live"
proof (induction d arbitrary: live)
  case Nil
  then show ?case by simp
next
  case (Cons p d)
  obtain k v where p: "p = (k, v)" by (cases p)
  from Cons.prems obtain t rest where "num_of v = Some t" "unexpired now d = Inr rest"
    "live = (if t > now then (k, v) # rest else rest)"
    by (auto simp: p split: option.splits sum.splits)
  with Cons.IH [of rest] show ?case by simp
qed

lemma startup_numeric:
  assumes "numeric_file file"
  shows "numeric (startup cfg now file latch)"
proof -
  have "list_all (\<lambda>p. num_of (snd p) \<noteq> None) (fst (load_cooldowns cfg now file))"
  proof (cases "file")
    case None
    then show ?thesis by (simp add: load_cooldowns_def)
  next
    case (Some doc)
    show ?thesis
    proof (cases doc)
      case (JDict data)
      let ?raw = "dict_get data (py_str ''keys'') (JDict [])"
      let ?sv = "dict_get data (py_str ''schema_version'') (JInt 1)"
      show ?thesis
      proof (cases "case ?raw of JDict raw \<Rightarrow> normalize cfg ?sv raw [] | _ \<Rightarrow> Inr []")
        case (Inl x)
        with Some JDict show ?thesis
          by (simp add: load_cooldowns_def Let_def)
      next
        case (Inr normalized)
        have n: "list_all (\<lambda>p. num_of (snd p) \<noteq> None) normalized"
        proof (cases ?raw)
          case raw: (JDict raw)
          with assms Some JDict have "list_all (\<lambda>p. num_of (snd p) \<noteq> None) raw"
            by (auto simp: numeric_file_def dict_get_def split: option.splits)
          moreover from Inr raw have "normalize cfg ?sv raw [] = Inr normalized"
            by simp
          ultimately show ?thesis
            using normalize_numeric [of "[]" raw cfg ?sv normalized] by simp
        qed (use Inr in auto)
        then obtain keys where u: "unexpired now normalized = Inr keys"
          by (simp add: unexpired_numeric)
        then have "list_all (\<lambda>p. num_of (snd p) \<noteq> None) keys"
          by (rule unexpired_keeps_numeric)
        with Some JDict Inr u show ?thesis
          by (auto simp: load_cooldowns_def Let_def split: json.splits sum.splits)
      qed
    qed (use Some in \<open>simp_all add: load_cooldowns_def\<close>)
  qed
  then show ?thesis
    by (simp add: numeric_def startup_def)
qed

lemma numeric_kept:
  "numeric st \<Longrightarrow> add_pending_cooldown cfg url key st = Inr ((), st') \<Longrightarrow> numeric st'"
  "numeric st \<Longrightarrow> add_pending_cooldown cfg url key st = Inl (e, st') \<Longrightarrow> numeric st'"
  "numeric st \<Longrightarrow> numeric (confirm_cooldown_for_url now url st)"
  "numeric st \<Longrightarrow> numeric (clear_pending_cooldown url st)"
  "numeric st \<Longrightarrow> set_key_cooldown cfg now key st = Inr (b, st') \<Longrightarrow> numeric st'"
  "numeric st \<Longrightarrow> is_key_in_cooldown cfg now key st = Inr (b, st') \<Longrightarrow> numeric st'"
  "numeric st \<Longrightarrow> numeric (set_url_cooldown now url st)"
  "numeric st \<Longrightarrow> is_url_in_cooldown now url st = Inr (b, st') \<Longrightarrow> numeric st'"
  "numeric st \<Longrightarrow> numeric (increment_key_usage key st)"
  "numeric st \<Longrightarrow> numeric (st\<lparr>nonessential_traffic_disabled := True\<rparr>)"
  "numeric st \<Longrightarrow> numeric (save_cooldowns st)"
proof -
  show "numeric st \<Longrightarrow> add_pending_cooldown cfg url key st = Inr ((), st') \<Longrightarrow> numeric st'"
    by (auto simp: numeric_def add_pending_cooldown_def Let_def split: sum.splits if_splits)
  show "numeric st \<Longrightarrow> add_pending_cooldown cfg url key st = Inl (e, st') \<Longrightarrow> numeric st'"
    by (auto simp: numeric_def add_pending_cooldown_def Let_def split: sum.splits if_splits)
  show "numeric st \<Longrightarrow> numeric (confirm_cooldown_for_url now url st)"
    using numeric_fold_update [of "key_cooldown_until st" "now + KEY_COOLDOWN_HOURS * 3600"]
    by (cases "map_of (pending_cooldown_keys st) url")
      (simp_all add: numeric_def confirm_cooldown_for_url_def save_cooldowns_def
        del: not_None_eq)
  show "numeric st \<Longrightarrow> numeric (clear_pending_cooldown url st)"
    by (simp add: numeric_def clear_pending_cooldown_def)
  show "numeric st \<Longrightarrow> set_key_cooldown cfg now key st = Inr (b, st') \<Longrightarrow> numeric st'"
  proof -
    assume n: "numeric st" and s: "set_key_cooldown cfg now key st = Inr (b, st')"
    have "num_of (JFloat (now + KEY_COOLDOWN_HOURS * 3600)) \<noteq> None"
      by (simp add: num_of_def)
    with n have "list_all (\<lambda>p. num_of (snd p) \<noteq> None)
        (AList.update kid (JFloat (now + KEY_COOLDOWN_HOURS * 3600)) (key_cooldown_until st))"
      for kid
      unfolding numeric_def by (rule numeric_update)
    with s show "numeric st'"
      by (auto simp: numeric_def set_key_cooldown_def save_cooldowns_def split: sum.splits
          simp del: not_None_eq)
  qed
  show "numeric st \<Longrightarrow> is_key_in_cooldown cfg now key st = Inr (b, st') \<Longrightarrow> numeric st'"
  proof -
    assume n: "numeric st" and s: "is_key_in_cooldown cfg now key st = Inr (b, st')"
    from n have "list_all (\<lambda>p. num_of (snd p) \<noteq> None) (AList.delete kid (key_cooldown_until st))"
      for kid
      unfolding numeric_def by (rule numeric_delete)
    with n s show "numeric st'"
      by (auto simp: numeric_def is_key_in_cooldown_def save_cooldowns_def
          split: sum.splits option.splits if_splits simp del: not_None_eq)
  qed
  show "numeric st \<Longrightarrow> numeric (set_url_cooldown now url st)"
    by (simp add: numeric_def set_url_cooldown_def save_cooldowns_def)
  show "numeric st \<Longrightarrow> is_url_in_cooldown now url st = Inr (b, st') \<Longrightarrow> numeric st'"
    by (auto simp: numeric_def is_url_in_cooldown_def split: option.splits if_splits)
  show "numeric st \<Longrightarrow> numeric (increment_key_usage key st)"
    by (simp add: numeric_def increment_key_usage_def)
  show "numeric st \<Longrightarrow> numeric (st\<lparr>nonessential_traffic_disabled := True\<rparr>)"
    by (simp add: numeric_def)
  show "numeric st \<Longrightarrow> numeric (save_cooldowns st)"
    by (simp add: numeric_def save_cooldowns_def)
qed

lemma numeric_readable:
  assumes "numeric st" and "kid_of cfg k = Inr kid"
  shows "readable cfg st k"
proof (cases "map_of (key_cooldown_until st) kid")
  case None
  with assms(2) show ?thesis by (simp add: readable_def)
next
  case (Some v)
  then have "(kid, v) \<in> set (key_cooldown_until st)"
    by (rule map_of_SomeD)
  with assms(1) have "num_of v \<noteq> None"
    by (auto simp: numeric_def list_all_iff)
  with assms(2) Some show ?thesis by (simp add: readable_def)
qed

lemma configured_readable:
  assumes "load_config urls keys = Inr cfg" and "numeric st"
  shows "list_all (readable cfg st) (CANDIDATE_API_KEYS cfg)"
proof -
  from assms(1) obtain t where t: "key_ids keys = Inr t" "KEY_ID_BY_KEY cfg = t"
    "CANDIDATE_API_KEYS cfg = keys"
    by (auto simp: load_config_def split: sum.splits)
  have "\<exists>kid. key_id k = Inr kid" if "k \<in> set keys" for k
    using t(1) that by (induction keys arbitrary: t) (auto split: sum.splits)
  then have "\<exists>kid. kid_of cfg k = Inr kid" if "k \<in> set keys" for k
    using that by (simp add: kid_of_key_id [OF assms(1)])
  then show ?thesis
    using assms(2) t(3) by (auto simp: list_all_iff intro: numeric_readable)
qed

section \<open>Properties of the failover engine\<close>

subsection \<open>An overloaded upstream\<close>






lemma range_attempts: "[1..<MAX_RETRY_ATTEMPTS + 1] = [1, 2]"
  by (simp add: MAX_RETRY_ATTEMPTS_def upt_rec)

lemma keys_loop_Cons:
  "keys_loop e url (key # rest) r =
     (if \<not> lib_print (env_lib e) (key_preview key) then (Some (Crashed UnicodeEncodeError), r)
      else (case attempts e url key (should_use_probe (run_ctx r)) (get_request_body (run_ctx r))
                   [1, 2] (r\<lparr>run_store := increment_key_usage key (run_store r)\<rparr>) of
              (Some x, r') \<Rightarrow> (Some x, r')
            | (None, r') \<Rightarrow> keys_loop e url rest r'))"
  unfolding keys_loop.simps range_attempts Let_def ..


subsection \<open>The examples\<close>

lemma key_a_b: "key_a \<noteq> key_b" "key_b \<noteq> key_a"
  by (simp_all add: key_a_def key_b_def py_str_def)


lemma var_arg1_overload: "\<not> str_contains (py_str ''var arg1='') overload_text"
  by (simp add: overload_text_def py_str_def)

lemma var_arg1_auth: "\<not> str_contains (py_str ''var arg1='') auth_text"
  by (simp add: auth_text_def py_str_def)

lemma texts_differ: "auth_text \<noteq> overload_text" "overload_text \<noteq> auth_text"
  by (simp_all add: auth_text_def overload_text_def py_str_def)

lemma json_type_example: "str_contains (py_str ''application/json'') (py_str ''application/json'')"
  by (simp add: py_str_def)

lemma overload_in_message:
  "str_contains (py_str ''overload'') (ascii_lower (py_str ''Overloaded''))"
  by (simp add: py_str_def ascii_lower_def)

lemma printed_examples:
  "utf8_print (key_preview key_a)" "utf8_print (key_preview key_b)"
  "utf8_print url_a" "utf8_print url_b" "utf8_print (py_str ''v1/messages'')"
  "utf8_print (take 100 (py_str ''Overloaded''))"
  by (simp_all add: utf8_print_def key_preview_def key_a_def key_b_def url_a_def url_b_def
      py_str_def utf8_char_def)


lemma extract_model_S2: "extract_model_from_body example_lib body_S2 = JStr (py_str ''m'')"
  by (simp add: extract_model_from_body_def example_lib_def example_loads_def data_S2_def
      dict_get_def py_str_def)

lemma create_probe_body_S2: "create_probe_body (JStr (py_str ''m'')) = Inr probe_S2"
  by (simp add: create_probe_body_def truthy_def py_str_def dumps_str_def escape_char_def
      dec_digits.simps dumps_int_def utf8_char_def probe_S2_def py_bytes_def)

lemma new_retry_context_S2: "new_retry_context example_lib body_S2 = Inr ctx_S2"
  by (simp add: new_retry_context_def extract_model_S2 create_probe_body_S2 ctx_S2_def)

lemma bodies_S2_differ: "body_S2 \<noteq> probe_S2"
  by (simp add: body_S2_def probe_S2_def py_bytes_def)

lemma kid_of_engine:
  "kid_of engine_cfg key_a = Inr (take 16 (hexdigest (sha256 (py_bytes ''sk-a''))))"
  "kid_of engine_cfg key_b = Inr (take 16 (hexdigest (sha256 (py_bytes ''sk-b''))))"
  by (simp_all add: kid_of_def engine_cfg_def key_a_b hexdigest_not_Nil)

lemma sorted_keys_fresh:
  "get_keys_sorted_by_usage engine_cfg now fresh_store = Inr ([key_a, key_b], fresh_store)"
proof -
  have "CANDIDATE_API_KEYS engine_cfg = [key_a, key_b]"
    by (simp add: engine_cfg_def)
  moreover have "key_cooldown_until fresh_store = []"
    by (simp add: fresh_store_def)
  moreover have "usage fresh_store key_a = 0" "usage fresh_store key_b = 0"
    by (simp_all add: usage_def fresh_store_def key_a_b)
  ultimately show ?thesis
    by (simp add: get_keys_sorted_by_usage_def get_available_keys_def is_key_in_cooldown_def
        kid_of_engine)
qed

lemma available_urls_fresh:
  "get_available_urls engine_cfg now fresh_store = Inr ([url_a, url_b], fresh_store)"
proof -
  have "CANDIDATE_URLS engine_cfg = [url_a, url_b]"
    by (simp add: engine_cfg_def)
  moreover have "url_cooldown_until fresh_store = []"
    by (simp add: fresh_store_def)
  ultimately show ?thesis
    by (simp add: get_available_urls_def is_url_in_cooldown_def)
qed

text \<open>
  The handler on the request of scenario S2, without a replacement and with a fresh
  store: both URLs and both keys are tried, in the order of the configuration.
\<close>

lemma proxy_S2:
  "proxy (engine_env up) request_S2 fresh_store =
     (case failover (engine_env up) [url_a, url_b] [key_a, key_b] (start_run fresh_store ctx_S2) of
        (x, r) \<Rightarrow> (x, run_store r, run_trace r))"
proof -
  have "process_request_body example_lib None False body_S2 = Inr body_S2"
    by (simp add: process_request_body_def)
  moreover have "lib_print example_lib = utf8_print"
    by (simp add: example_lib_def)
  ultimately show ?thesis
    by (simp add: proxy_def engine_env_def request_S2_def new_retry_context_S2
        sorted_keys_fresh available_urls_fresh printed_examples)
qed

lemmas engine_eval =
  failover_def urls_loop.simps keys_loop_Cons keys_loop.simps(1) attempts.simps attempt_once_def
  on_success_def on_error_response_def on_request_error_def on_4xx_auth_def on_5xx_json_def
  auth_error_def finish_def send_def note_error_def record_attempt_def should_use_probe_def
  get_request_body_def start_run_def MAX_RETRY_ATTEMPTS_def error_member_def py_get_def
  dict_get_def overloaded_message_def message_logged_def type_in_def AUTH_ERROR_TYPES_def
  engine_env_def example_lib_def loads_text_example_def confirm_cooldown_for_url_def
  increment_key_usage_def fresh_store_def ctx_S2_def key_a_b printed_examples


lemma run_error_401_then_ok:
  "fst (failover (engine_env error_401_then_ok) [url_a, url_b] [key_a, key_b]
     (start_run fresh_store ctx_S2)) = Streamed url_a key_b ok_200"
  "map s_key (run_trace (snd (failover (engine_env error_401_then_ok) [url_a, url_b] [key_a, key_b]
     (start_run fresh_store ctx_S2)))) = [key_a, key_a, key_b]"
  "map s_attempt (run_trace (snd (failover (engine_env error_401_then_ok) [url_a, url_b]
     [key_a, key_b] (start_run fresh_store ctx_S2)))) = [1, 2, 1]"
  "map s_full (run_trace (snd (failover (engine_env error_401_then_ok) [url_a, url_b] [key_a, key_b]
     (start_run fresh_store ctx_S2)))) = [0, 1, 1]"
  "pending_cooldown_keys (run_store (snd (failover (engine_env error_401_then_ok) [url_a, url_b]
     [key_a, key_b] (start_run fresh_store ctx_S2)))) = []"
  "nonessential_traffic_disabled (run_store (snd (failover (engine_env error_401_then_ok)
     [url_a, url_b] [key_a, key_b] (start_run fresh_store ctx_S2))))"
  by (simp_all add: engine_eval error_401_then_ok_def auth_401_def ok_200_def
      var_arg1_auth texts_differ del: keys_loop.simps(2))

lemma run_overload_error_then_ok:
  "map s_full (run_trace (snd (failover (engine_env overload_error_then_ok) [url_a, url_b]
     [key_a, key_b] (start_run fresh_store ctx_S2)))) = [0, 1, 2]"
  "map s_body (run_trace (snd (failover (engine_env overload_error_then_ok) [url_a, url_b]
     [key_a, key_b] (start_run fresh_store ctx_S2)))) = [body_S2, body_S2, body_S2]"
  "map s_probe (run_trace (snd (failover (engine_env overload_error_then_ok) [url_a, url_b]
     [key_a, key_b] (start_run fresh_store ctx_S2)))) = [False, False, False]"
  by (simp_all add: engine_eval overload_error_then_ok_def overload_503_def ok_200_def
      var_arg1_overload json_type_example overload_in_message del: keys_loop.simps(2))

subsection \<open>The next key after an overload\<close>




subsection \<open>Authentication errors\<close>

lemma auth_classifiedD:
  assumes "auth_classified e resp"
  obtains error_data error_type where "env_loads_text e (resp_text resp) = Inr error_data"
    and "error_member error_data (py_str ''type'') = Inr error_type"
    and "type_in AUTH_ERROR_TYPES error_type"
    and "if status_code resp \<ge> 500 then
                  str_contains (py_str ''application/json'') (content_type resp) \<and>
                  (case error_member error_data (py_str ''message'') of
                     Inr (JStr m) \<Rightarrow>
                       \<not> str_contains FUZAI m \<and>
                       \<not> str_contains (py_str ''overload'') (lib_lower (env_lib e) m) \<and>
                       lib_print (env_lib e) (take 100 m)
                   | _ \<Rightarrow> False)
                else status_code resp = 401 \<or> status_code resp = 403"
proof -
  from assms have c: "(case env_loads_text e (resp_text resp) of
        Inr error_data \<Rightarrow>
          (case error_member error_data (py_str ''type'') of
             Inr error_type \<Rightarrow>
               type_in AUTH_ERROR_TYPES error_type \<and>
               (if status_code resp \<ge> 500 then
                  str_contains (py_str ''application/json'') (content_type resp) \<and>
                  (case error_member error_data (py_str ''message'') of
                     Inr (JStr m) \<Rightarrow>
                       \<not> str_contains FUZAI m \<and>
                       \<not> str_contains (py_str ''overload'') (lib_lower (env_lib e) m) \<and>
                       lib_print (env_lib e) (take 100 m)
                   | _ \<Rightarrow> False)
                else status_code resp = 401 \<or> status_code resp = 403)
           | _ \<Rightarrow> False)
      | _ \<Rightarrow> False)"
    unfolding auth_classified_def by blast
  then obtain error_data where 1: "env_loads_text e (resp_text resp) = Inr error_data"
    by (cases "env_loads_text e (resp_text resp)") simp_all
  with c obtain error_type where 2: "error_member error_data (py_str ''type'') = Inr error_type"
    by (cases "error_member error_data (py_str ''type'')") simp_all
  from c 1 2 show ?thesis
    by (intro that [of error_data error_type]) simp_all
qed

lemma on_5xx_json_auth:
  assumes "auth_classified e resp" and "status_code resp \<ge> 500"
  shows "on_5xx_json e url key p resp r = auth_error e url key p (KeyInvalid key) r"
proof -
  from assms(1) obtain error_data error_type where
    1: "env_loads_text e (resp_text resp) = Inr error_data"
    and 2: "error_member error_data (py_str ''type'') = Inr error_type"
    and 3: "type_in AUTH_ERROR_TYPES error_type"
    and 4: "if status_code resp \<ge> 500 then
                  str_contains (py_str ''application/json'') (content_type resp) \<and>
                  (case error_member error_data (py_str ''message'') of
                     Inr (JStr m) \<Rightarrow>
                       \<not> str_contains FUZAI m \<and>
                       \<not> str_contains (py_str ''overload'') (lib_lower (env_lib e) m) \<and>
                       lib_print (env_lib e) (take 100 m)
                   | _ \<Rightarrow> False)
                else status_code resp = 401 \<or> status_code resp = 403"
    by (rule auth_classifiedD)
  from 4 assms(2) have m: "(case error_member error_data (py_str ''message'') of
                     Inr (JStr m) \<Rightarrow>
                       \<not> str_contains FUZAI m \<and>
                       \<not> str_contains (py_str ''overload'') (lib_lower (env_lib e) m) \<and>
                       lib_print (env_lib e) (take 100 m)
                   | _ \<Rightarrow> False)"
    by simp
  then obtain v where 5: "error_member error_data (py_str ''message'') = Inr v"
    by (cases "error_member error_data (py_str ''message'')") simp_all
  with m obtain s where 6: "v = JStr s"
    by (cases v) simp_all
  from m 5 6 have "\<not> str_contains FUZAI s"
    "\<not> str_contains (py_str ''overload'') (lib_lower (env_lib e) s)"
    "lib_print (env_lib e) (take 100 s)"
    by simp_all
  with 1 2 3 5 6 show ?thesis
    by (simp add: on_5xx_json_def overloaded_message_def message_logged_def)
qed

lemma on_4xx_auth_auth:
  assumes "auth_classified e resp"
  shows "on_4xx_auth e url key p resp r =
     auth_error e url key p (AuthFailed key (status_code resp)) r"
proof -
  from assms obtain error_data error_type where
    "env_loads_text e (resp_text resp) = Inr error_data"
    and "error_member error_data (py_str ''type'') = Inr error_type"
    and "type_in AUTH_ERROR_TYPES error_type"
    by (rule auth_classifiedD)
  then show ?thesis
    by (simp add: on_4xx_auth_def)
qed

text \<open>
  The one retry: with the latch not set, an authentication error in full mode sets the
  latch, leaves the counter where it was before the attempt, and goes to the next attempt
  of the same URL and key, if the loop has one; after the last attempt the loop is over.
\<close>

lemma attempt_once_auth_retry:
  assumes "env_upstream e (run_sent r) = Reply resp" and "auth_classified e resp"
    and "\<not> nonessential_traffic_disabled (run_store r)"
  shows "attempt_once e url key False content a r =
     (Continue, after_auth_retry url key content a r)"
proof -
  let ?r0 = "send url key content False a False r"
  let ?r1 = "?r0\<lparr>run_ctx := record_attempt False False None None (run_ctx ?r0)\<rparr>"
  from assms(2) have s: "\<not> status_code resp < 400" "\<not> read_error resp"
    "\<not> str_contains (py_str ''var arg1='') (resp_text resp)"
    unfolding auth_classified_def by simp_all
  have latch: "\<not> nonessential_traffic_disabled (run_store ?r1)"
    using assms(3) by (simp add: send_def)
  have ctx: "(run_ctx ?r1)\<lparr>full_context_attempts := full_context_attempts (run_ctx ?r1) - 1\<rparr>
      = run_ctx r"
    by (simp add: send_def record_attempt_def)
  have retry: "auth_error e url key False n ?r1 = (Continue, after_auth_retry url key content a r)"
    for n
    using latch ctx by (simp add: auth_error_def after_auth_retry_def send_def)
  have "on_error_response e url key False a resp ?r0 =
      (Continue, after_auth_retry url key content a r)"
  proof (cases "status_code resp \<ge> 500")
    case True
    from assms(2) True have "str_contains (py_str ''application/json'') (content_type resp)"
      by (auto elim!: auth_classifiedD)
    with True s(3) show ?thesis
      unfolding on_error_response_def Let_def
      by (simp add: on_5xx_json_auth [OF assms(2) True] retry)
  next
    case False
    from assms(2) False have "status_code resp = 401 \<or> status_code resp = 403"
      by (auto elim!: auth_classifiedD)
    with False s(3) show ?thesis
      unfolding on_error_response_def Let_def
      by (simp add: on_4xx_auth_auth [OF assms(2)] retry)
  qed
  with s show ?thesis
    by (simp add: attempt_once_def assms(1))
qed

lemma attempts_auth_retry:
  assumes "env_upstream e (run_sent r) = Reply resp" and "auth_classified e resp"
    and "\<not> nonessential_traffic_disabled (run_store r)"
  shows "attempts e url key False content (a # later) r =
     attempts e url key False content later (after_auth_retry url key content a r)"
    and "attempts e url key False content [a] r = (None, after_auth_retry url key content a r)"
    and "run_ctx (after_auth_retry url key content a r) = run_ctx r"
    and "nonessential_traffic_disabled (run_store (after_auth_retry url key content a r))"
    and "pending_cooldown_keys (run_store (after_auth_retry url key content a r)) =
         pending_cooldown_keys (run_store r)"
    and "run_errors (after_auth_retry url key content a r) = run_errors r"
  using attempt_once_auth_retry [OF assms]
  by (simp_all add: after_auth_retry_def send_def)

text \<open>
  Otherwise, with the latch set or in probe mode, the key is put on the pending list of
  the URL and the attempt loop ends, for the next key.
\<close>

lemma attempts_auth_pending:
  assumes "env_upstream e (run_sent r) = Reply resp" and "auth_classified e resp"
    and "nonessential_traffic_disabled (run_store r) \<or> p"
    and "add_pending_cooldown (env_cfg e) url key (run_store r) = Inr ((), st')"
  shows "attempts e url key p content (a # later) r =
     (None, note_error (auth_note key resp)
        ((send url key content p a False r)
           \<lparr>run_ctx := record_attempt p False None None (run_ctx r), run_store := st'\<rparr>))"
proof -
  let ?r0 = "send url key content p a False r"
  let ?r1 = "?r0\<lparr>run_ctx := record_attempt p False None None (run_ctx ?r0)\<rparr>"
  let ?r2 = "note_error (auth_note key resp)
        ((send url key content p a False r)
           \<lparr>run_ctx := record_attempt p False None None (run_ctx r), run_store := st'\<rparr>)"
  from assms(2) have s: "\<not> status_code resp < 400" "\<not> read_error resp"
    "\<not> str_contains (py_str ''var arg1='') (resp_text resp)"
    unfolding auth_classified_def by simp_all
  have st: "run_store ?r1 = run_store r"
    by (simp add: send_def)
  have pend: "auth_error e url key p n ?r1 =
      (Break, note_error n (?r0\<lparr>run_ctx := record_attempt p False None None (run_ctx r),
         run_store := st'\<rparr>))" for n
    using assms(3) assms(4) unfolding auth_error_def st
    by (auto simp: send_def note_error_def)
  have "on_error_response e url key p a resp ?r0 = (Break, ?r2)"
  proof (cases "status_code resp \<ge> 500")
    case True
    from assms(2) True have "str_contains (py_str ''application/json'') (content_type resp)"
      by (auto elim!: auth_classifiedD)
    with True s(3) show ?thesis
      unfolding on_error_response_def Let_def
      by (simp add: on_5xx_json_auth [OF assms(2) True] pend auth_note_def)
  next
    case False
    from assms(2) False have "status_code resp = 401 \<or> status_code resp = 403"
      by (auto elim!: auth_classifiedD)
    with False s(3) show ?thesis
      unfolding on_error_response_def Let_def
      by (simp add: on_4xx_auth_auth [OF assms(2)] pend auth_note_def)
  qed
  with s show ?thesis
    by (simp add: attempt_once_def assms(1))
qed

text \<open>
  Claim C3, at an input where the code does not do what the claim says (the second
  equation of \<open>attempts_auth_retry\<close>, at the handler). Two keys, the latch not set. The first request, to the first URL with the first key, fails with a
  transport error; the second, the second attempt of the same pair, is answered 401 with
  the type \<open>authentication_error\<close>. The latch is set and the counter taken back from 2
  to 1, but the \<open>continue\<close> of line 946 ends the attempt loop: the third request goes
  out with the second key, the first key is sent no third time and is not in the pending
  list of the URL.
\<close>

theorem auth_error_at_last_attempt:
  "env_upstream (engine_env error_401_then_ok) 0 = RequestError \<and>
   env_upstream (engine_env error_401_then_ok) 1 = Reply auth_401 \<and>
   auth_classified (engine_env error_401_then_ok) auth_401 \<and>
   \<not> nonessential_traffic_disabled fresh_store \<and>
   fst (proxy (engine_env error_401_then_ok) request_S2 fresh_store) =
     Streamed url_a key_b ok_200 \<and>
   map s_key (snd (snd (proxy (engine_env error_401_then_ok) request_S2 fresh_store))) =
     [key_a, key_a, key_b] \<and>
   map s_attempt (snd (snd (proxy (engine_env error_401_then_ok) request_S2 fresh_store))) =
     [1, 2, 1] \<and>
   map s_full (snd (snd (proxy (engine_env error_401_then_ok) request_S2 fresh_store))) =
     [0, 1, 1] \<and>
   nonessential_traffic_disabled
     (fst (snd (proxy (engine_env error_401_then_ok) request_S2 fresh_store))) \<and>
   pending_cooldown_keys
     (fst (snd (proxy (engine_env error_401_then_ok) request_S2 fresh_store))) = []"
proof -
  have "env_upstream (engine_env error_401_then_ok) 0 = RequestError"
    "env_upstream (engine_env error_401_then_ok) 1 = Reply auth_401"
    by (simp_all add: engine_env_def error_401_then_ok_def)
  moreover have "auth_classified (engine_env error_401_then_ok) auth_401"
    by (simp add: auth_classified_def auth_401_def engine_env_def loads_text_example_def
        texts_differ var_arg1_auth error_member_def py_get_def dict_get_def type_in_def
        AUTH_ERROR_TYPES_def)
  moreover have "\<not> nonessential_traffic_disabled fresh_store"
    by (simp add: fresh_store_def)
  moreover have "fst (proxy (engine_env error_401_then_ok) request_S2 fresh_store) =
     Streamed url_a key_b ok_200"
    "map s_key (snd (snd (proxy (engine_env error_401_then_ok) request_S2 fresh_store))) =
     [key_a, key_a, key_b]"
    "map s_attempt (snd (snd (proxy (engine_env error_401_then_ok) request_S2 fresh_store))) =
     [1, 2, 1]"
    "map s_full (snd (snd (proxy (engine_env error_401_then_ok) request_S2 fresh_store))) =
     [0, 1, 1]"
    "nonessential_traffic_disabled
       (fst (snd (proxy (engine_env error_401_then_ok) request_S2 fresh_store)))"
    "pending_cooldown_keys
       (fst (snd (proxy (engine_env error_401_then_ok) request_S2 fresh_store))) = []"
    by (simp_all add: proxy_S2 split_beta run_error_401_then_ok)
  ultimately show ?thesis
    by (intro conjI)
qed

text \<open>
  For comparison, scenario S4 with two keys: the 401 comes at the first attempt, the
  second attempt goes to the same pair, and at its 401 the key is put on the pending list
  of the URL, which the success of the second key confirms.
\<close>

lemma auth_error_at_first_attempt:
  "map s_key (run_trace (snd (failover (engine_env twice_401_then_ok) [url_a, url_b]
     [key_a, key_b] (start_run fresh_store ctx_S2)))) = [key_a, key_a, key_b]"
  "map s_attempt (run_trace (snd (failover (engine_env twice_401_then_ok) [url_a, url_b]
     [key_a, key_b] (start_run fresh_store ctx_S2)))) = [1, 2, 1]"
  "map s_full (run_trace (snd (failover (engine_env twice_401_then_ok) [url_a, url_b]
     [key_a, key_b] (start_run fresh_store ctx_S2)))) = [0, 0, 1]"
  "run_errors (snd (failover (engine_env twice_401_then_ok) [url_a, url_b]
     [key_a, key_b] (start_run fresh_store ctx_S2))) = [AuthFailed key_a 401]"
  "key_cooldown_until (run_store (snd (failover (engine_env twice_401_then_ok) [url_a, url_b]
     [key_a, key_b] (start_run fresh_store ctx_S2)))) =
     [(take 16 (hexdigest (sha256 (py_bytes ''sk-a''))), JFloat (1000 + 72 * 3600))]"
  by (simp_all add: engine_eval twice_401_then_ok_def auth_401_def ok_200_def
      var_arg1_auth texts_differ add_pending_cooldown_def kid_of_engine Let_def
      save_cooldowns_def KEY_COOLDOWN_HOURS_def del: keys_loop.simps(2))

subsection \<open>What a step keeps\<close>

lemma keeps_refl: "keeps p r r"
  by (simp add: keeps_def same_bodies_def)

lemma keeps_trans: "keeps p r r' \<Longrightarrow> keeps p r' r'' \<Longrightarrow> keeps p r r''"
  by (auto simp: keeps_def same_bodies_def)

lemma keeps_note: "keeps p r r' \<Longrightarrow> keeps p r (note_error n r')"
  by (simp add: keeps_def note_error_def)

lemma keeps_record:
  "keeps p r (r\<lparr>run_ctx := record_attempt p success u k (run_ctx r)\<rparr>)"
  by (simp add: keeps_def same_bodies_def record_attempt_def)

lemma keeps_store: "keeps p r (r\<lparr>run_store := st\<rparr>)"
  by (simp add: keeps_def same_bodies_def)

lemma keeps_flag:
  "keeps p r (r\<lparr>run_ctx := (run_ctx r)\<lparr>probe_succeeded_but_full_failed := True\<rparr>\<rparr>)"
  by (simp add: keeps_def same_bodies_def)

lemma auth_error_keeps:
  assumes "auth_error e url key p n r = (f, r')"
  shows "keeps p r r'"
proof (cases "\<not> nonessential_traffic_disabled (run_store r) \<and> \<not> p")
  case True
  with assms show ?thesis
    by (auto simp: auth_error_def keeps_def same_bodies_def)
next
  case False
  show ?thesis
  proof (cases "add_pending_cooldown (env_cfg e) url key (run_store r)")
    case (Inl x)
    with assms False show ?thesis
      by (cases x) (auto simp: auth_error_def keeps_store)
  next
    case (Inr y)
    with assms False show ?thesis
      by (cases y) (auto simp: auth_error_def keeps_store keeps_note)
  qed
qed

lemma on_5xx_json_keeps:
  assumes "on_5xx_json e url key p resp r = (f, r')"
  shows "keeps p r r'"
proof (cases "env_loads_text e (resp_text resp)")
  case (Inl x)
  with assms show ?thesis
    by (simp add: on_5xx_json_def keeps_refl)
next
  case data: (Inr error_data)
  show ?thesis
  proof (cases "error_member error_data (py_str ''message'')")
    case (Inl x)
    with assms data show ?thesis
      by (simp add: on_5xx_json_def keeps_refl)
  next
    case msg: (Inr error_msg)
    show ?thesis
    proof (cases "error_member error_data (py_str ''type'')")
      case (Inl x)
      with assms data msg show ?thesis
        by (simp add: on_5xx_json_def keeps_refl)
    next
      case ty: (Inr error_type)
      show ?thesis
      proof (cases "overloaded_message (lib_lower (env_lib e)) error_msg")
        case (Inl x)
        with assms data msg ty show ?thesis
          by (simp add: on_5xx_json_def keeps_refl)
      next
        case (Inr b)
        with assms data msg ty show ?thesis
          by (cases b)
            (auto simp: on_5xx_json_def keeps_refl keeps_note dest: auth_error_keeps
              split: if_splits)
      qed
    qed
  qed
qed

lemma on_4xx_auth_keeps:
  assumes "on_4xx_auth e url key p resp r = (f, r')"
  shows "keeps p r r'"
proof (cases "env_loads_text e (resp_text resp)")
  case (Inl x)
  with assms show ?thesis
    by (simp add: on_4xx_auth_def keeps_refl)
next
  case data: (Inr error_data)
  show ?thesis
  proof (cases "error_member error_data (py_str ''type'')")
    case (Inl x)
    with assms data show ?thesis
      by (simp add: on_4xx_auth_def keeps_refl)
  next
    case (Inr error_type)
    with assms data show ?thesis
      by (auto simp: on_4xx_auth_def keeps_refl dest: auth_error_keeps split: if_splits)
  qed
qed

lemma on_request_error_keeps:
  assumes "on_request_error url key p a r = (f, r')"
  shows "keeps p r r'"
  using assms keeps_record [of p r False None None]
  by (auto simp: on_request_error_def Let_def keeps_note split: if_splits)

lemma finish_keeps:
  assumes "finish e url key resp r = (f, r')"
  shows "keeps p r r'"
  using assms by (auto simp: finish_def keeps_store)

lemma on_full_failed_keeps:
  assumes "on_full_failed e url key p a resp r = (f, r')"
  shows "keeps p r r'"
proof -
  let ?r1 = "r\<lparr>run_ctx := (run_ctx r)\<lparr>probe_succeeded_but_full_failed := True\<rparr>\<rparr>"
  have k: "keeps p r ?r1"
    by (rule keeps_flag)
  from assms have "on_request_error url key p a ?r1 = (f, r') \<or> r' = ?r1
      \<or> r' = note_error (ProbeOkFullFailed key (status_code resp)) ?r1"
    by (auto simp: on_full_failed_def Let_def split: if_splits)
  then show ?thesis
    using k by (auto dest: on_request_error_keeps intro: keeps_trans keeps_note)
qed

lemma on_error_response_keeps:
  assumes "on_error_response e url key p a resp r = (f, r')"
  shows "keeps p r r'"
proof -
  let ?r1 = "r\<lparr>run_ctx := record_attempt p False None None (run_ctx r)\<rparr>"
  have k: "keeps p r ?r1"
    by (rule keeps_record)
  have "keeps p ?r1 r'"
  proof (cases "str_contains (py_str ''var arg1='') (resp_text resp)")
    case True
    with assms show ?thesis
      by (auto simp: on_error_response_def Let_def keeps_refl keeps_note split: if_splits)
  next
    case waf: False
    show ?thesis
    proof (cases "status_code resp \<ge> 500")
      case True
      obtain g r2 where g: "(if str_contains (py_str ''application/json'') (content_type resp)
                  then on_5xx_json e url key p resp ?r1 else (Pass, ?r1)) = (g, r2)"
        by (cases "(if str_contains (py_str ''application/json'') (content_type resp)
                  then on_5xx_json e url key p resp ?r1 else (Pass, ?r1))")
      then have k2: "keeps p ?r1 r2"
        by (auto simp: keeps_refl dest: on_5xx_json_keeps split: if_splits)
      from assms waf True g have "r' = r2 \<or> r' = note_error (HttpStatus url (status_code resp)) r2"
        unfolding on_error_response_def Let_def
        by (cases g) (auto split: if_splits)
      with k2 show ?thesis
        by (auto intro: keeps_note)
    next
      case False
      obtain g r2 where g: "(if status_code resp = 401 \<or> status_code resp = 403
                  then on_4xx_auth e url key p resp ?r1 else (Pass, ?r1)) = (g, r2)"
        by (cases "(if status_code resp = 401 \<or> status_code resp = 403
                  then on_4xx_auth e url key p resp ?r1 else (Pass, ?r1))")
      then have k2: "keeps p ?r1 r2"
        by (auto simp: keeps_refl dest: on_4xx_auth_keeps split: if_splits)
      from assms waf False g have "r' = r2"
        unfolding on_error_response_def Let_def
        by (cases g) (auto split: if_splits)
      with k2 show ?thesis
        by simp
    qed
  qed
  with k show ?thesis
    by (rule keeps_trans)
qed

subsection \<open>The requests of one attempt\<close>

lemma one_attemptI:
  assumes "keeps p r1 r'" and "run_trace r1 = run_trace r @ new"
    and "list_all (\<lambda>s. sent_in_mode p (run_ctx r) s \<and> s_attempt s = a) new"
    and "same_bodies (run_ctx r) (run_ctx r1)"
    and "p \<longrightarrow> full_context_attempts (run_ctx r1) = full_context_attempts (run_ctx r)"
  shows "one_attempt p a r new r'"
  using assms by (auto simp: one_attempt_def keeps_def same_bodies_def)

lemma send_ctx: "run_ctx (send url key content p a resend r) = run_ctx r"
  by (simp add: send_def)

lemma first_send:
  assumes "content = (if p then probe_body (run_ctx r) else original_body (run_ctx r))"
  shows "run_trace (send url key content p a False r) =
      run_trace r @ [\<lparr>s_url = url, s_key = key, s_body = content, s_probe = p, s_attempt = a,
           s_resend = False, s_full = full_context_attempts (run_ctx r)\<rparr>]"
    and "list_all (\<lambda>s. sent_in_mode p (run_ctx r) s \<and> s_attempt s = a)
      [\<lparr>s_url = url, s_key = key, s_body = content, s_probe = p, s_attempt = a,
           s_resend = False, s_full = full_context_attempts (run_ctx r)\<rparr>]"
    and "run_ctx (send url key content p a False r) = run_ctx r"
  using assms by (simp_all add: send_def sent_in_mode_def)

lemma after_first_send:
  assumes "keeps p (send url key content p a False r) r'"
    and "content = (if p then probe_body (run_ctx r) else original_body (run_ctx r))"
  shows "\<exists>new. one_attempt p a r new r'"
proof -
  note s = first_send [OF assms(2), where url = url and key = key and a = a]
  have "one_attempt p a r [\<lparr>s_url = url, s_key = key, s_body = content, s_probe = p,
      s_attempt = a, s_resend = False, s_full = full_context_attempts (run_ctx r)\<rparr>] r'"
    using assms(1) s(1) s(2)
    by (rule one_attemptI) (simp_all add: send_ctx same_bodies_def)
  then show ?thesis ..
qed

lemma on_success_one:
  assumes "on_success e url key p a resp (send url key content p a False r) = (f, r')"
    and "content = (if p then probe_body (run_ctx r) else original_body (run_ctx r))"
  shows "\<exists>new. one_attempt p a r new r'"
proof (cases p)
  case False
  let ?r0 = "send url key content p a False r"
  let ?r1 = "?r0\<lparr>run_ctx := record_attempt p True (Some url) (Some key) (run_ctx ?r0)\<rparr>"
  from assms(1) False have "finish e url key resp ?r1 = (f, r')"
    by (simp add: on_success_def Let_def)
  then have "keeps p ?r1 r'"
    by (rule finish_keeps)
  with keeps_record [of p ?r0 True "Some url" "Some key"] have "keeps p ?r0 r'"
    by (rule keeps_trans)
  then show ?thesis
    using assms(2) by (rule after_first_send)
next
  case True
  let ?r0 = "send url key content p a False r"
  let ?r1 = "?r0\<lparr>run_ctx := record_attempt p True (Some url) (Some key) (run_ctx ?r0)\<rparr>"
  let ?r2 = "send url key (original_body (run_ctx ?r1)) p a True ?r1"
  let ?s1 = "\<lparr>s_url = url, s_key = key, s_body = content, s_probe = p, s_attempt = a,
           s_resend = False, s_full = full_context_attempts (run_ctx r)\<rparr>"
  let ?s2 = "\<lparr>s_url = url, s_key = key, s_body = original_body (run_ctx r), s_probe = p,
           s_attempt = a, s_resend = True, s_full = full_context_attempts (run_ctx r)\<rparr>"
  have c1: "run_ctx ?r1 = record_attempt True True (Some url) (Some key) (run_ctx r)"
    using True by (simp add: send_def)
  then have b: "original_body (run_ctx ?r1) = original_body (run_ctx r)"
    "probe_body (run_ctx ?r1) = probe_body (run_ctx r)"
    "full_context_attempts (run_ctx ?r1) = full_context_attempts (run_ctx r)"
    by (simp_all add: record_attempt_def)
  have t: "run_trace ?r2 = run_trace r @ [?s1, ?s2]"
    using b by (simp add: send_def)
  have m: "list_all (\<lambda>s. sent_in_mode p (run_ctx r) s \<and> s_attempt s = a) [?s1, ?s2]"
    using assms(2) True by (simp add: sent_in_mode_def)
  have c2: "run_ctx ?r2 = run_ctx ?r1"
    by (simp add: send_def)
  have sb: "same_bodies (run_ctx r) (run_ctx ?r2)"
    unfolding c2 using b by (simp add: same_bodies_def)
  have "full_context_attempts (run_ctx ?r2) = full_context_attempts (run_ctx r)"
    using b(3) by (simp only: send_ctx)
  then have fc: "p \<longrightarrow> full_context_attempts (run_ctx ?r2) = full_context_attempts (run_ctx r)"
    by (rule impI)
  from assms(1) True have "on_request_error url key p a ?r2 = (f, r')
      \<or> (\<exists>full_resp. on_full_failed e url key p a full_resp ?r2 = (f, r'))
      \<or> (\<exists>full_resp. finish e url key full_resp ?r2 = (f, r'))"
    by (auto simp: on_success_def Let_def split: reply.splits if_splits)
  then have "keeps p ?r2 r'"
    by (auto dest: on_request_error_keeps on_full_failed_keeps finish_keeps)
  then have "one_attempt p a r [?s1, ?s2] r'"
    using t m sb fc by (rule one_attemptI)
  then show ?thesis ..
qed

lemma attempt_once_one:
  assumes "attempt_once e url key p content a r = (f, r')"
    and "content = (if p then probe_body (run_ctx r) else original_body (run_ctx r))"
  shows "\<exists>new. one_attempt p a r new r'"
proof (cases "env_upstream e (run_sent r)")
  case RequestError
  with assms(1) have "on_request_error url key p a (send url key content p a False r) = (f, r')"
    by (simp add: attempt_once_def)
  then have "keeps p (send url key content p a False r) r'"
    by (rule on_request_error_keeps)
  then show ?thesis
    using assms(2) by (rule after_first_send)
next
  case (Reply resp)
  show ?thesis
  proof (cases "status_code resp < 400")
    case True
    with assms(1) Reply
    have "on_success e url key p a resp (send url key content p a False r) = (f, r')"
      by (simp add: attempt_once_def)
    then show ?thesis
      using assms(2) by (rule on_success_one)
  next
    case False
    with assms(1) Reply
    have "on_request_error url key p a (send url key content p a False r) = (f, r')
        \<or> on_error_response e url key p a resp (send url key content p a False r) = (f, r')"
      by (auto simp: attempt_once_def split: if_splits)
    then have "keeps p (send url key content p a False r) r'"
      by (auto dest: on_request_error_keeps on_error_response_keeps)
    then show ?thesis
      using assms(2) by (rule after_first_send)
  qed
qed

subsection \<open>Probe mode stays\<close>

lemma stays_probe_append:
  "stays_probe (t @ u) \<longleftrightarrow>
     stays_probe t \<and> stays_probe u \<and>
     (\<forall>s\<in>set t. s_probe s \<longrightarrow> (\<forall>s'\<in>set u. s_probe s' \<and> s_full s' = s_full s))"
  by (induction t) (auto simp: list_all_iff)

lemma stays_probe_same:
  "\<forall>s\<in>set u. s_probe s = p \<and> s_full s = n \<Longrightarrow> stays_probe u"
  by (induction u) (auto simp: list_all_iff)

lemma probe_inv_step:
  assumes inv: "probe_inv c r" and one: "one_attempt p a r new r'"
    and two: "p \<longrightarrow> 2 \<le> full_context_attempts (run_ctx r)"
    and old: "(\<exists>s\<in>set (run_trace r). s_probe s) \<longrightarrow> p"
    and first: "a = 1 \<longrightarrow> p = (2 \<le> full_context_attempts (run_ctx r))"
  shows "probe_inv c r'" and "(\<exists>s\<in>set (run_trace r'). s_probe s) \<longrightarrow> p"
    and "p \<longrightarrow> full_context_attempts (run_ctx r') = full_context_attempts (run_ctx r)"
proof -
  from one have t: "run_trace r' = run_trace r @ new"
    and n: "\<forall>s\<in>set new. s_probe s = p \<and> s_full s = full_context_attempts (run_ctx r) \<and>
          s_body s = (if p \<and> \<not> s_resend s then probe_body (run_ctx r) else original_body (run_ctx r))
          \<and> s_attempt s = a"
    and b: "same_bodies (run_ctx r) (run_ctx r')"
    and f: "p \<longrightarrow> full_context_attempts (run_ctx r') = full_context_attempts (run_ctx r)"
    by (auto simp: one_attempt_def sent_in_mode_def list_all_iff)
  from inv have cb: "same_bodies c (run_ctx r)"
    and m: "\<forall>s\<in>set (run_trace r). mode_by_counter s"
    and sp: "stays_probe (run_trace r)"
    and bm: "\<forall>s\<in>set (run_trace r). body_by_mode c s"
    and cur: "\<forall>s\<in>set (run_trace r). s_probe s \<longrightarrow>
                 s_full s = full_context_attempts (run_ctx r) \<and> 2 \<le> s_full s"
    by (auto simp: probe_inv_def probe_absorbing_def list_all_iff)
  show 3: "p \<longrightarrow> full_context_attempts (run_ctx r') = full_context_attempts (run_ctx r)"
    by (rule f)
  show 2: "(\<exists>s\<in>set (run_trace r'). s_probe s) \<longrightarrow> p"
    using t n old by auto
  have b': "same_bodies c (run_ctx r')"
    using cb b by (auto simp: same_bodies_def)
  have m': "\<forall>s\<in>set (run_trace r'). mode_by_counter s"
    using t m n first by (auto simp: mode_by_counter_def)
  have "stays_probe new"
    using n by (intro stays_probe_same [of new p "full_context_attempts (run_ctx r)"]) simp
  moreover have "\<forall>s\<in>set (run_trace r). s_probe s \<longrightarrow>
      (\<forall>s'\<in>set new. s_probe s' \<and> s_full s' = s_full s)"
    using n old cur by auto
  ultimately have sp': "stays_probe (run_trace r')"
    using t sp by (simp add: stays_probe_append)
  have bm': "\<forall>s\<in>set (run_trace r'). body_by_mode c s"
    using t bm n cb by (auto simp: body_by_mode_def same_bodies_def)
  have cur': "\<forall>s\<in>set (run_trace r'). s_probe s \<longrightarrow>
                 s_full s = full_context_attempts (run_ctx r') \<and> 2 \<le> s_full s"
  proof (intro ballI impI)
    fix s assume s: "s \<in> set (run_trace r')" "s_probe s"
    with 2 have p by blast
    with f two have "full_context_attempts (run_ctx r') = full_context_attempts (run_ctx r)"
      "2 \<le> full_context_attempts (run_ctx r)"
      by simp_all
    moreover from s t n cur have "s_full s = full_context_attempts (run_ctx r)"
      by auto
    ultimately show "s_full s = full_context_attempts (run_ctx r') \<and> 2 \<le> s_full s"
      by simp
  qed
  show "probe_inv c r'"
    unfolding probe_inv_def probe_absorbing_def list_all_iff
    using b' m' sp' bm' cur' by blast
qed

lemma attempts_inv:
  assumes "attempts e url key p content as r = (x, r')"
    and "1 \<notin> set (tl as)"
    and "as \<noteq> [] \<and> hd as = 1 \<longrightarrow> p = (2 \<le> full_context_attempts (run_ctx r))"
    and "probe_inv c r"
    and "content = (if p then probe_body c else original_body c)"
    and "p \<longrightarrow> 2 \<le> full_context_attempts (run_ctx r)"
    and "(\<exists>s\<in>set (run_trace r). s_probe s) \<longrightarrow> p"
  shows "probe_inv c r'"
  using assms
proof (induction as arbitrary: r)
  case Nil
  then show ?case by simp
next
  case (Cons a rest)
  obtain f r1 where step: "attempt_once e url key p content a r = (f, r1)"
    by (cases "attempt_once e url key p content a r")
  from Cons.prems(4) have "same_bodies c (run_ctx r)"
    by (simp add: probe_inv_def)
  with Cons.prems(5)
  have "content = (if p then probe_body (run_ctx r) else original_body (run_ctx r))"
    by (simp add: same_bodies_def)
  with step obtain new where one: "one_attempt p a r new r1"
    using attempt_once_one by blast
  from Cons.prems(3) have first: "a = 1 \<longrightarrow> p = (2 \<le> full_context_attempts (run_ctx r))"
    by simp
  note s = probe_inv_step [OF Cons.prems(4) one Cons.prems(6) Cons.prems(7) first]
  show ?case
  proof (cases "r' = r1")
    case True
    with s(1) show ?thesis by simp
  next
    case False
    with Cons.prems(1) step have rest: "attempts e url key p content rest r1 = (x, r')"
      by (cases f) auto
    from Cons.prems(2) have "1 \<notin> set rest"
      by simp
    then have "1 \<notin> set (tl rest)"
      and "rest \<noteq> [] \<and> hd rest = 1 \<longrightarrow> p = (2 \<le> full_context_attempts (run_ctx r1))"
      by (cases rest; simp)+
    moreover from s(3) Cons.prems(6) have "p \<longrightarrow> 2 \<le> full_context_attempts (run_ctx r1)"
      by simp
    ultimately show ?thesis
      using Cons.IH [OF rest _ _ s(1) Cons.prems(5) _ s(2)] by blast
  qed
qed

lemma probe_inv_store: "probe_inv c (r\<lparr>run_store := st\<rparr>) = probe_inv c r"
  by (simp add: probe_inv_def)

lemma keys_loop_inv:
  assumes "keys_loop e url keys r = (x, r')" and "probe_inv c r"
  shows "probe_inv c r'"
  using assms
proof (induction keys arbitrary: r)
  case Nil
  then show ?case by simp
next
  case (Cons key rest)
  let ?p = "should_use_probe (run_ctx r)"
  let ?r1 = "r\<lparr>run_store := increment_key_usage key (run_store r)\<rparr>"
  show ?case
  proof (cases "lib_print (env_lib e) (key_preview key)")
    case False
    with Cons.prems show ?thesis
      by (simp add: keys_loop_Cons)
  next
    case True
    obtain y r2 where a: "attempts e url key ?p (get_request_body (run_ctx r)) [1, 2] ?r1 = (y, r2)"
      by (cases "attempts e url key ?p (get_request_body (run_ctx r)) [1, 2] ?r1")
    from Cons.prems(2) have sb: "same_bodies c (run_ctx r)"
      and cur: "\<forall>s\<in>set (run_trace r). s_probe s \<longrightarrow>
                 s_full s = full_context_attempts (run_ctx r) \<and> 2 \<le> s_full s"
      by (auto simp: probe_inv_def list_all_iff)
    have inv1: "probe_inv c ?r1"
      using Cons.prems(2) by (simp add: probe_inv_store)
    have body: "get_request_body (run_ctx r) = (if ?p then probe_body c else original_body c)"
      using sb by (simp add: get_request_body_def same_bodies_def)
    have two: "?p \<longrightarrow> 2 \<le> full_context_attempts (run_ctx ?r1)"
      by (simp add: should_use_probe_def)
    have old: "(\<exists>s\<in>set (run_trace ?r1). s_probe s) \<longrightarrow> ?p"
      using cur by (auto simp: should_use_probe_def)
    have first: "[1, 2] \<noteq> [] \<and> hd [1, 2::nat] = 1 \<longrightarrow>
        ?p = (2 \<le> full_context_attempts (run_ctx ?r1))"
      by (simp add: should_use_probe_def)
    have "1 \<notin> set (tl [1, 2::nat])"
      by simp
    from attempts_inv [OF a this first inv1 body two old] have inv2: "probe_inv c r2" .
    have kl: "keys_loop e url (key # rest) r =
        (case y of Some z \<Rightarrow> (Some z, r2) | None \<Rightarrow> keys_loop e url rest r2)"
      unfolding keys_loop_Cons a using True by (simp split: option.splits)
    show ?thesis
    proof (cases y)
      case None
      with Cons.prems(1) kl have "keys_loop e url rest r2 = (x, r')"
        by simp
      then show ?thesis
        using inv2 by (rule Cons.IH)
    next
      case (Some z)
      with Cons.prems(1) kl have "r' = r2"
        by simp
      with inv2 show ?thesis by simp
    qed
  qed
qed

lemma urls_loop_inv:
  assumes "urls_loop e urls keys r = (x, r')" and "probe_inv c r"
  shows "probe_inv c r'"
  using assms
proof (induction urls arbitrary: r)
  case Nil
  then show ?case by simp
next
  case (Cons url rest)
  show ?case
  proof (cases "lib_print (env_lib e) url")
    case False
    with Cons.prems show ?thesis by simp
  next
    case True
    obtain y r2 where k: "keys_loop e url keys r = (y, r2)"
      by (cases "keys_loop e url keys r")
    then have inv2: "probe_inv c r2"
      using Cons.prems(2) by (rule keys_loop_inv)
    show ?thesis
    proof (cases y)
      case None
      with Cons.prems(1) True k have "urls_loop e rest keys r2 = (x, r')"
        by simp
      then show ?thesis
        using inv2 by (rule Cons.IH)
    next
      case (Some z)
      with Cons.prems(1) True k have "r' = r2"
        by simp
      with inv2 show ?thesis by simp
    qed
  qed
qed

lemma probe_inv_start: "probe_inv c (start_run st c)"
  by (simp add: probe_inv_def probe_absorbing_def start_run_def same_bodies_def)

lemma failover_inv: "probe_inv c (snd (failover e urls keys (start_run st c)))"
proof -
  obtain y r' where u: "urls_loop e urls keys (start_run st c) = (y, r')"
    by (cases "urls_loop e urls keys (start_run st c)")
  then have "probe_inv c r'"
    using probe_inv_start by (rule urls_loop_inv)
  moreover from u have "snd (failover e urls keys (start_run st c)) = r'"
    by (cases y) (simp_all add: failover_def)
  ultimately show ?thesis by simp
qed

lemma stays_probe_nth:
  assumes "stays_probe t" and "i < j" and "j < length t" and "s_probe (t ! i)"
  shows "s_probe (t ! j) \<and> s_full (t ! j) = s_full (t ! i)"
  using assms
proof (induction t arbitrary: i j)
  case Nil
  then show ?case by simp
next
  case (Cons s t)
  show ?case
  proof (cases i)
    case 0
    with Cons.prems obtain k where "j = Suc k" "k < length t"
      by (cases j) auto
    with Cons.prems 0 show ?thesis
      by (auto simp: list_all_iff)
  next
    case (Suc i')
    with Cons.prems obtain k where "j = Suc k" "k < length t" "i' < k"
      by (cases j) auto
    with Cons.prems Suc Cons.IH [of i' k] show ?thesis
      by simp
  qed
qed

lemma probe_absorbing_from_first:
  assumes "probe_absorbing c t" and "t = before @ s # after"
    and "s_attempt s = 1" and "\<not> s_resend s" and "2 \<le> s_full s"
  shows "\<forall>s'\<in>set (s # after). s_probe s' \<and> s_full s' = s_full s \<and>
           s_body s' = (if s_resend s' then original_body c else probe_body c)"
proof -
  from assms(1) have m: "list_all mode_by_counter t" and sp: "stays_probe t"
    and b: "list_all (body_by_mode c) t"
    by (simp_all add: probe_absorbing_def)
  from m assms(2-5) have p: "s_probe s"
    by (simp add: mode_by_counter_def)
  from sp assms(2) have "stays_probe (s # after)"
    by (simp add: stays_probe_append)
  with p have l: "\<forall>s'\<in>set after. s_probe s' \<and> s_full s' = s_full s"
    by (simp add: list_all_iff)
  from b assms(2) have "\<forall>s'\<in>set (s # after). body_by_mode c s'"
    by (simp add: list_all_iff)
  with p l show ?thesis
    by (auto simp: body_by_mode_def)
qed

text \<open>
  Claim C10, as amended. Of the upstream requests of one call of the handler, in the
  order sent, whatever the upstream answers: once a key's first attempt is sent with the
  counter at 2 or more, this request and every later one are in probe mode, the counter
  stays what it was, and each carries the probe body, except the full request sent again
  after a probe got through, which carries the original body. More in \<open>probe_absorbing\<close>:
  a first attempt is in probe mode only with the counter at 2 or more, and a request in
  full mode carries the original body.
\<close>

theorem probe_mode_absorbing:
  "probe_absorbing c (run_trace (snd (failover e urls keys (start_run st c)))) \<and>
   (\<forall>before s after.
      run_trace (snd (failover e urls keys (start_run st c))) = before @ s # after \<and>
      s_attempt s = 1 \<and> \<not> s_resend s \<and> 2 \<le> s_full s \<longrightarrow>
      (\<forall>s'\<in>set (s # after). s_probe s' \<and> s_full s' = s_full s \<and>
         s_body s' = (if s_resend s' then original_body c else probe_body c)))"
proof -
  have a: "probe_absorbing c (run_trace (snd (failover e urls keys (start_run st c))))"
    using failover_inv [of c e urls keys st] by (simp add: probe_inv_def)
  then show ?thesis
    using probe_absorbing_from_first [OF a] by blast
qed

text \<open>
  The theorem where no upstream request gets through: the first key uses up the two full
  attempts; the third request is the first attempt of the second key, with the counter at
  2, and it and the five requests after it are in probe mode, with the counter at 2 and
  the probe body.
\<close>

lemma trace_always_error:
  "run_trace (snd (failover (engine_env always_error) [url_a, url_b] [key_a, key_b]
     (start_run fresh_store ctx_S2))) =
   [\<lparr>s_url = url_a, s_key = key_a, s_body = body_S2, s_probe = False, s_attempt = 1,
      s_resend = False, s_full = 0\<rparr>,
    \<lparr>s_url = url_a, s_key = key_a, s_body = body_S2, s_probe = False, s_attempt = 2,
      s_resend = False, s_full = 1\<rparr>] @
   \<lparr>s_url = url_a, s_key = key_b, s_body = probe_S2, s_probe = True, s_attempt = 1,
      s_resend = False, s_full = 2\<rparr> #
   [\<lparr>s_url = url_a, s_key = key_b, s_body = probe_S2, s_probe = True, s_attempt = 2,
      s_resend = False, s_full = 2\<rparr>,
    \<lparr>s_url = url_b, s_key = key_a, s_body = probe_S2, s_probe = True, s_attempt = 1,
      s_resend = False, s_full = 2\<rparr>,
    \<lparr>s_url = url_b, s_key = key_a, s_body = probe_S2, s_probe = True, s_attempt = 2,
      s_resend = False, s_full = 2\<rparr>,
    \<lparr>s_url = url_b, s_key = key_b, s_body = probe_S2, s_probe = True, s_attempt = 1,
      s_resend = False, s_full = 2\<rparr>,
    \<lparr>s_url = url_b, s_key = key_b, s_body = probe_S2, s_probe = True, s_attempt = 2,
      s_resend = False, s_full = 2\<rparr>]"
  by (simp add: engine_eval always_error_def del: keys_loop.simps(2))

theorem probe_mode_absorbing_witness:
  "probe_absorbing ctx_S2 (run_trace (snd (failover (engine_env always_error) [url_a, url_b]
     [key_a, key_b] (start_run fresh_store ctx_S2)))) \<and>
   map s_attempt (run_trace (snd (failover (engine_env always_error) [url_a, url_b]
     [key_a, key_b] (start_run fresh_store ctx_S2)))) = [1, 2, 1, 2, 1, 2, 1, 2] \<and>
   map s_full (run_trace (snd (failover (engine_env always_error) [url_a, url_b]
     [key_a, key_b] (start_run fresh_store ctx_S2)))) = [0, 1, 2, 2, 2, 2, 2, 2] \<and>
   list_all s_probe (drop 2 (run_trace (snd (failover (engine_env always_error) [url_a, url_b]
     [key_a, key_b] (start_run fresh_store ctx_S2))))) \<and>
   map s_body (drop 2 (run_trace (snd (failover (engine_env always_error) [url_a, url_b]
     [key_a, key_b] (start_run fresh_store ctx_S2))))) =
     [probe_S2, probe_S2, probe_S2, probe_S2, probe_S2, probe_S2]"
proof -
  let ?t = "run_trace (snd (failover (engine_env always_error) [url_a, url_b] [key_a, key_b]
     (start_run fresh_store ctx_S2)))"
  let ?s = "\<lparr>s_url = url_a, s_key = key_b, s_body = probe_S2, s_probe = True, s_attempt = 1,
      s_resend = False, s_full = 2\<rparr>"
  note inst = probe_mode_absorbing [of ctx_S2 "engine_env always_error" "[url_a, url_b]"
      "[key_a, key_b]" fresh_store]
  from inst have a: "probe_absorbing ctx_S2 ?t" ..
  have h: "s_attempt ?s = 1 \<and> \<not> s_resend ?s \<and> 2 \<le> s_full ?s"
    by simp
  from inst [THEN conjunct2, rule_format, OF conjI [OF trace_always_error h]]
  have l: "list_all s_probe (drop 2 ?t)"
    by (simp add: trace_always_error)
  have m: "map s_attempt ?t = [1, 2, 1, 2, 1, 2, 1, 2]"
    "map s_full ?t = [0, 1, 2, 2, 2, 2, 2, 2]"
    "map s_body (drop 2 ?t) = [probe_S2, probe_S2, probe_S2, probe_S2, probe_S2, probe_S2]"
    by (simp_all add: trace_always_error)
  from a m l show ?thesis
    by (intro conjI)
qed

text \<open>
  The claim as it was stated fails: the first key is answered with the overload message
  (the counter goes to 1), the first attempt of the second key fails with a transport
  error (the counter goes to 2), and the second attempt of the second key is sent with
  the counter at 2, in full mode and with the original body, which is not the probe body.
\<close>

theorem probe_mode_absorbing_counterexample:
  "map s_full (snd (snd (proxy (engine_env overload_error_then_ok) request_S2 fresh_store))) =
     [0, 1, 2] \<and>
   map s_probe (snd (snd (proxy (engine_env overload_error_then_ok) request_S2 fresh_store))) =
     [False, False, False] \<and>
   map s_body (snd (snd (proxy (engine_env overload_error_then_ok) request_S2 fresh_store))) =
     [body_S2, body_S2, body_S2] \<and>
   new_retry_context example_lib body_S2 = Inr ctx_S2 \<and>
   probe_body ctx_S2 = probe_S2 \<and> body_S2 \<noteq> probe_S2"
proof -
  have "map s_full (snd (snd (proxy (engine_env overload_error_then_ok) request_S2 fresh_store))) =
     [0, 1, 2]"
    "map s_probe (snd (snd (proxy (engine_env overload_error_then_ok) request_S2 fresh_store))) =
     [False, False, False]"
    "map s_body (snd (snd (proxy (engine_env overload_error_then_ok) request_S2 fresh_store))) =
     [body_S2, body_S2, body_S2]"
    by (simp_all add: proxy_S2 split_beta run_overload_error_then_ok)
  moreover have "probe_body ctx_S2 = probe_S2"
    by (simp add: ctx_S2_def)
  ultimately show ?thesis
    using new_retry_context_S2 bodies_S2_differ by (intro conjI)
qed


end
